theory Spec2Isabelle
  imports Main "HOL-Library.Char_ord" "HOL-Library.List_Lexorder"
begin

section \<open>Values of the ingestion scripts\<close>

text \<open>
  The scripts \<^verbatim>\<open>scripts/ingest/backfill_parallel.py\<close> and \<^verbatim>\<open>scripts/ingest/backfill.py\<close>
  read one JSON document per line and probe it with \<^verbatim>\<open>obj.get\<close>. A decoded document is
  a Python value built from \<^verbatim>\<open>None\<close>, booleans, integers, floats, strings, lists and
  dictionaries. A dictionary is an association list whose first binding of a key is the
  one that counts. A string is a list of characters, one \<^typ>\<open>char\<close> per code point (code
  points below 256).
\<close>

text \<open>The exceptions the modelled code can raise. \<open>RangeError\<close> stands for the error that
  \<^verbatim>\<open>datetime.fromtimestamp\<close> raises on an instant outside the years 1 to 9999 (Python raises
  \<^verbatim>\<open>ValueError\<close>, \<^verbatim>\<open>OverflowError\<close> or \<^verbatim>\<open>OSError\<close> there, depending on the magnitude).\<close>

datatype exn = ValueError | TypeError | AttributeError | OverflowError | RangeError

text \<open>
  The scripts never compute with a float of a document. They can only test its truth
  value, convert it with \<^verbatim>\<open>int()\<close> and print it with \<^verbatim>\<open>str()\<close>, so a float is kept as
  these three observations: whether it is non-zero, the integer it truncates to (or the
  exception \<^verbatim>\<open>int()\<close> raises for an infinity or a NaN), and the first and the other
  characters of its \<^verbatim>\<open>repr\<close>, which is never empty.
\<close>

datatype pyfloat = PyFloat (float_nonzero: bool) (float_trunc: "exn + int")
  (float_repr_head: char) (float_repr_tail: string)

datatype json =
    JNull
  | JBool bool
  | JInt int
  | JFloat pyfloat
  | JStr string
  | JList "json list"
  | JDict "(string \<times> json) list"

text \<open>Python truth value of a decoded document: what \<^verbatim>\<open>if x\<close>, \<^verbatim>\<open>not x\<close> and \<^verbatim>\<open>x or y\<close> test.\<close>

fun truthy :: "json \<Rightarrow> bool" where
  "truthy JNull = False"
| "truthy (JBool b) = b"
| "truthy (JInt n) = (n \<noteq> 0)"
| "truthy (JFloat x) = float_nonzero x"
| "truthy (JStr s) = (s \<noteq> [])"
| "truthy (JList xs) = (xs \<noteq> [])"
| "truthy (JDict kvs) = (kvs \<noteq> [])"

definition py_or :: "json \<Rightarrow> json \<Rightarrow> json" where
  "py_or a b = (if truthy a then a else b)"

text \<open>\<^verbatim>\<open>isinstance(x, dict)\<close>.\<close>

fun is_dict :: "json \<Rightarrow> bool" where
  "is_dict (JDict kvs) = True"
| "is_dict _ = False"

text \<open>\<^verbatim>\<open>d.get(k)\<close> on a dictionary: the value, or \<^verbatim>\<open>None\<close> for a missing key. A key bound to
  JSON \<^verbatim>\<open>null\<close> gives \<^verbatim>\<open>None\<close> as well.\<close>

definition dict_get :: "(string \<times> json) list \<Rightarrow> string \<Rightarrow> json" where
  "dict_get d k = (case map_of d k of None \<Rightarrow> JNull | Some v \<Rightarrow> v)"

text \<open>\<^verbatim>\<open>d.get(k, default)\<close>: the default only replaces a missing key, not a \<^verbatim>\<open>null\<close> value.\<close>

definition dict_get_default :: "(string \<times> json) list \<Rightarrow> string \<Rightarrow> json \<Rightarrow> json" where
  "dict_get_default d k dflt = (case map_of d k of None \<Rightarrow> dflt | Some v \<Rightarrow> v)"

text \<open>\<^verbatim>\<open>obj.get(k)\<close> on any decoded document: only a dictionary has the method.\<close>

fun obj_get :: "json \<Rightarrow> string \<Rightarrow> exn + json" where
  "obj_get (JDict d) k = Inr (dict_get d k)"
| "obj_get _ k = Inl AttributeError"

subsection \<open>Whitespace and \<^verbatim>\<open>str.strip\<close>\<close>

text \<open>\<^verbatim>\<open>str.isspace\<close> on the code points below 256: tab to carriage return, the four
  separators 28 to 31, space, next-line (133) and no-break space (160).\<close>

definition is_space :: "char \<Rightarrow> bool" where
  "is_space c = (let n = (of_char c :: int) in
     (9 \<le> n \<and> n \<le> 13) \<or> (28 \<le> n \<and> n \<le> 32) \<or> n = 133 \<or> n = 160)"

definition strip :: "string \<Rightarrow> string" where
  "strip s = rev (dropWhile is_space (rev (dropWhile is_space s)))"

subsection \<open>\<^verbatim>\<open>int(x)\<close>\<close>

definition digit_of :: "char \<Rightarrow> int option" where
  "digit_of c = (let n = (of_char c :: int) in if 48 \<le> n \<and> n \<le> 57 then Some (n - 48) else None)"

text \<open>The digits after the first one: a single underscore may stand between two digits.\<close>

fun int_digits :: "int \<Rightarrow> string \<Rightarrow> int option" where
  "int_digits acc [] = Some acc"
| "int_digits acc [c] =
     (case digit_of c of None \<Rightarrow> None | Some v \<Rightarrow> Some (10 * acc + v))"
| "int_digits acc (c # d # cs) =
     (if c = CHR ''_'' then
        (case digit_of d of None \<Rightarrow> None | Some v \<Rightarrow> int_digits (10 * acc + v) cs)
      else
        (case digit_of c of None \<Rightarrow> None | Some v \<Rightarrow> int_digits (10 * acc + v) (d # cs)))"

text \<open>A number of more than 4300 digits is refused (the default limit of CPython 3.11, which
  counts the digits and not the sign or the underscores).\<close>

definition MAX_STR_DIGITS :: int where
  "MAX_STR_DIGITS = 4300"

fun count_digits :: "string \<Rightarrow> int" where
  "count_digits [] = 0"
| "count_digits (c # cs) = (if digit_of c = None then 0 else 1) + count_digits cs"

definition int_unsigned :: "string \<Rightarrow> int option" where
  "int_unsigned s =
     (if MAX_STR_DIGITS < count_digits s then None
      else
        (case s of [] \<Rightarrow> None
         | c # cs \<Rightarrow> (case digit_of c of None \<Rightarrow> None | Some v \<Rightarrow> int_digits v cs)))"

text \<open>The whitespace \<^verbatim>\<open>int()\<close> skips around a number is not that of \<^verbatim>\<open>str.strip\<close>: tab to
  carriage return and space, and also next-line (133) and no-break space (160), which a
  string that is not ASCII has turned into spaces first. The separators 28 to 31 are not
  skipped: \<^verbatim>\<open>int('\x1c12')\<close> raises.\<close>

definition is_int_space :: "char \<Rightarrow> bool" where
  "is_int_space c = (let n = (of_char c :: int) in
     (9 \<le> n \<and> n \<le> 13) \<or> n = 32 \<or> n = 133 \<or> n = 160)"

definition strip_int :: "string \<Rightarrow> string" where
  "strip_int s = rev (dropWhile is_int_space (rev (dropWhile is_int_space s)))"

text \<open>\<^verbatim>\<open>int(s)\<close> for a string, base 10: surrounding whitespace, one optional sign, digits.
  \<open>None\<close> is \<^verbatim>\<open>ValueError\<close>.\<close>

definition int_of_str :: "string \<Rightarrow> int option" where
  "int_of_str s =
     (case strip_int s of [] \<Rightarrow> None
      | c # cs \<Rightarrow>
          if c = CHR ''-'' then map_option uminus (int_unsigned cs)
          else if c = CHR ''+'' then int_unsigned cs
          else int_unsigned (c # cs))"

text \<open>\<^verbatim>\<open>int(x)\<close> for a decoded document that is not \<^verbatim>\<open>None\<close>.\<close>

fun py_int :: "json \<Rightarrow> exn + int" where
  "py_int (JInt n) = Inr n"
| "py_int (JBool b) = Inr (if b then 1 else 0)"
| "py_int (JFloat x) = float_trunc x"
| "py_int (JStr s) = (case int_of_str s of None \<Rightarrow> Inl ValueError | Some n \<Rightarrow> Inr n)"
| "py_int _ = Inl TypeError"

subsection \<open>\<^verbatim>\<open>str(x)\<close>\<close>

text \<open>The decimal digits of a non-negative integer. The integers printed are those of a decoded
  document: \<^verbatim>\<open>json.loads\<close> reads a literal under the limit of 4300 digits, so that \<^verbatim>\<open>str()\<close>
  never meets a longer one.\<close>

function digits_of_int :: "int \<Rightarrow> string" where
  "digits_of_int n =
     (if n < 10 then [char_of (48 + n)]
      else digits_of_int (n div 10) @ [char_of (48 + n mod 10)])"
  by pat_completeness auto
termination
  by (relation "measure nat") auto

definition str_int :: "int \<Rightarrow> string" where
  "str_int i = (if i < 0 then CHR ''-'' # digits_of_int (- i) else digits_of_int i)"

definition hex_digit :: "int \<Rightarrow> char" where
  "hex_digit n = (if n < 10 then char_of (48 + n) else char_of (87 + n))"

text \<open>\<^verbatim>\<open>str.isprintable\<close> on the code points from 128 up to 255.\<close>

definition printable_high :: "int \<Rightarrow> bool" where
  "printable_high n = (161 \<le> n \<and> n \<noteq> 173)"

definition repr_char :: "char \<Rightarrow> char \<Rightarrow> string" where
  "repr_char q c = (let n = (of_char c :: int) in
     if c = q \<or> c = CHR 0x5C then [CHR 0x5C, c]
     else if n = 9 then [CHR 0x5C, CHR ''t'']
     else if n = 10 then [CHR 0x5C, CHR ''n'']
     else if n = 13 then [CHR 0x5C, CHR ''r'']
     else if n < 32 \<or> n = 127 \<or> (128 \<le> n \<and> \<not> printable_high n)
       then [CHR 0x5C, CHR ''x'', hex_digit (n div 16), hex_digit (n mod 16)]
     else [c])"

text \<open>\<^verbatim>\<open>repr(s)\<close> of a string: single quotes, unless the string holds a single quote and no
  double quote.\<close>

definition repr_str :: "string \<Rightarrow> string" where
  "repr_str s = (let q = (if CHR 0x27 \<in> set s \<and> CHR 0x22 \<notin> set s then CHR 0x22 else CHR 0x27)
     in q # concat (map (repr_char q) s) @ [q])"

fun join :: "string \<Rightarrow> string list \<Rightarrow> string" where
  "join sep [] = []"
| "join sep [x] = x"
| "join sep (x # y # ys) = x @ sep @ join sep (y # ys)"

fun py_repr :: "json \<Rightarrow> string" where
  "py_repr JNull = ''None''"
| "py_repr (JBool b) = (if b then ''True'' else ''False'')"
| "py_repr (JInt n) = str_int n"
| "py_repr (JFloat x) = float_repr_head x # float_repr_tail x"
| "py_repr (JStr s) = repr_str s"
| "py_repr (JList xs) = ''['' @ join '', '' (map py_repr xs) @ '']''"
| "py_repr (JDict kvs) =
     ''{'' @ join '', '' (map (\<lambda>kv. repr_str (fst kv) @ '': '' @ py_repr (snd kv)) kvs) @ ''}''"

text \<open>\<^verbatim>\<open>str(x)\<close>: a string is itself, every other value is its \<^verbatim>\<open>repr\<close>.\<close>

fun py_str :: "json \<Rightarrow> string" where
  "py_str (JStr s) = s"
| "py_str v = py_repr v"

section \<open>Timestamp extraction: \<^verbatim>\<open>parse_ts\<close>\<close>

text \<open>
  An aware \<^verbatim>\<open>datetime\<close>: the instant, in microseconds since 1970-01-01T00:00:00 UTC, and
  the offset of the attached time zone, in microseconds east of UTC. Two values with the
  same \<open>micros\<close> are the same instant, whatever their offsets.
\<close>

record datetime =
  micros :: int
  utcoffset :: int

subsection \<open>Double-precision arithmetic\<close>

text \<open>
  \<^verbatim>\<open>int(ms) / 1000.0\<close> and \<^verbatim>\<open>datetime.fromtimestamp\<close> compute with IEEE 754 doubles. A finite
  double is \<open>m * 2 ^ e\<close> for two integers: \<open>Double m e\<close>, the sign carried by \<open>m\<close>. Its value
  is the fraction \<open>numer / denom\<close>, whose denominator is a power of two.
\<close>

datatype double = Double (mant: int) (expo: int)

function pow2 :: "int \<Rightarrow> int" where
  "pow2 k = (if k \<le> 0 then 1 else 2 * pow2 (k - 1))"
  by pat_completeness auto
termination
  by (relation "measure nat") auto

text \<open>\<^verbatim>\<open>int.bit_length\<close> of a positive integer.\<close>

function bit_length :: "int \<Rightarrow> int" where
  "bit_length n = (if n \<le> 0 then 0 else 1 + bit_length (n div 2))"
  by pat_completeness auto
termination
  by (relation "measure nat") auto

definition numer :: "double \<Rightarrow> int" where
  "numer x = mant x * pow2 (expo x)"

definition denom :: "double \<Rightarrow> int" where
  "denom x = pow2 (- expo x)"

text \<open>The integer nearest to \<open>a / b\<close> for \<open>0 < b\<close>, a tie going to the even one.\<close>

definition rhe_div :: "int \<Rightarrow> int \<Rightarrow> int" where
  "rhe_div a b =
     (if 2 * (a mod b) < b then a div b
      else if b < 2 * (a mod b) then a div b + 1
      else if even (a div b) then a div b
      else a div b + 1)"

text \<open>The exponent \<open>e\<close> that gives \<open>a / q\<close> a mantissa of 53 bits, for \<open>0 < a\<close> and \<open>0 < q\<close>:
  \<open>2 ^ 52 \<le> a / (q * 2 ^ e) < 2 ^ 53\<close>.\<close>

definition binade :: "int \<Rightarrow> int \<Rightarrow> int" where
  "binade a q =
     (let e = bit_length a - bit_length q - 53
      in if pow2 53 * (q * pow2 e) \<le> a * pow2 (- e) then e + 1 else e)"

text \<open>The double nearest to the fraction \<open>p / q\<close>, \<open>0 < q\<close>, ties to even: the rounding of every
  arithmetic operation. The exponent does not go below that of the subnormal numbers,
  \<open>- 1074\<close>.\<close>

definition round_to_double :: "int \<Rightarrow> int \<Rightarrow> double" where
  "round_to_double p q =
     (if p = 0 then Double 0 0
      else
        let e = max (binade \<bar>p\<bar> q) (- 1074);
            m = rhe_div (\<bar>p\<bar> * pow2 (- e)) (q * pow2 e)
        in Double (if p < 0 then - m else m) e)"

text \<open>The conversion of the left operand of \<^verbatim>\<open>int(ms) / 1000.0\<close>: the nearest double, or
  \<^verbatim>\<open>OverflowError\<close> when that is \<open>2 ^ 1024\<close> or more.\<close>

definition float_of_int :: "int \<Rightarrow> exn + double" where
  "float_of_int n =
     (let x = round_to_double n 1
      in if 1024 < bit_length \<bar>mant x\<bar> + expo x then Inl OverflowError else Inr x)"

text \<open>Division and multiplication of a double by a double that is a positive integer
  (\<^verbatim>\<open>1000.0\<close>, \<^verbatim>\<open>1e6\<close>), rounded.\<close>

definition fdiv :: "double \<Rightarrow> int \<Rightarrow> double" where
  "fdiv x c = round_to_double (numer x) (denom x * c)"

definition fmul :: "double \<Rightarrow> int \<Rightarrow> double" where
  "fmul x c = round_to_double (numer x * c) (denom x)"

text \<open>\<^verbatim>\<open>modf\<close>: the integral part, truncated toward zero, and the fractional part, which has
  the sign of the number. Both are exact.\<close>

definition modf_int :: "double \<Rightarrow> int" where
  "modf_int x = (if 0 \<le> numer x then numer x div denom x else - (- numer x div denom x))"

definition modf_frac :: "double \<Rightarrow> double" where
  "modf_frac x = Double (numer x - modf_int x * denom x) (expo x)"

text \<open>The integer nearest to a double, ties to even.\<close>

definition round_half_even :: "double \<Rightarrow> int" where
  "round_half_even x = rhe_div (numer x) (denom x)"

subsection \<open>\<^verbatim>\<open>datetime.fromtimestamp\<close>\<close>

text \<open>The first and the last second that \<^verbatim>\<open>datetime\<close> can hold: 0001-01-01T00:00:00 and
  9999-12-31T23:59:59 UTC.\<close>

definition MIN_SECONDS :: int where
  "MIN_SECONDS = - 62135596800"

definition MAX_SECONDS :: int where
  "MAX_SECONDS = 253402300799"

text \<open>
  \<^verbatim>\<open>datetime.fromtimestamp(t, tz=timezone.utc)\<close> as CPython computes it: \<^verbatim>\<open>modf\<close> splits the
  double, the fraction is multiplied by \<^verbatim>\<open>1e6\<close> and rounded half to even to the
  microsecond, a microsecond count outside \<open>0\<close> to \<open>999999\<close> is carried to the seconds, and
  the seconds must fall in the years 1 to 9999.
\<close>

definition fromtimestamp :: "double \<Rightarrow> exn + datetime" where
  "fromtimestamp t =
     (let intpart = modf_int t;
          floatpart = round_half_even (fmul (modf_frac t) 1000000);
          sec = (if 1000000 \<le> floatpart then intpart + 1
                 else if floatpart < 0 then intpart - 1 else intpart);
          us = (if 1000000 \<le> floatpart then floatpart - 1000000
                else if floatpart < 0 then floatpart + 1000000 else floatpart)
      in if MIN_SECONDS \<le> sec \<and> sec \<le> MAX_SECONDS
         then Inr \<lparr>micros = 1000000 * sec + us, utcoffset = 0\<rparr>
         else Inl RangeError)"

text \<open>\<^verbatim>\<open>datetime.fromtimestamp(n / 1000.0, tz=timezone.utc)\<close> for the integer \<open>n\<close> that
  \<^verbatim>\<open>int(ms)\<close> gave.\<close>

definition fromtimestamp_millis :: "int \<Rightarrow> exn + datetime" where
  "fromtimestamp_millis n =
     (case float_of_int n of
        Inl e \<Rightarrow> Inl e
      | Inr x \<Rightarrow> fromtimestamp (fdiv x 1000))"

subsection \<open>Calendar fields\<close>

text \<open>The calendar date of a day number (days since 1970-01-01) in the proleptic Gregorian
  calendar, and the fields of an instant read in UTC: year, month, day, hour, minute,
  second, microsecond.\<close>

definition civil_from_days :: "int \<Rightarrow> int \<times> int \<times> int" where
  "civil_from_days z0 =
     (let z = z0 + 719468;
          era = z div 146097;
          doe = z - era * 146097;
          yoe = (doe - doe div 1460 + doe div 36524 - doe div 146096) div 365;
          y = yoe + era * 400;
          doy = doe - (365 * yoe + yoe div 4 - yoe div 100);
          mp = (5 * doy + 2) div 153;
          d = doy - (153 * mp + 2) div 5 + 1;
          m = (if mp < 10 then mp + 3 else mp - 9)
      in (if m \<le> 2 then y + 1 else y, m, d))"

definition utc_fields :: "datetime \<Rightarrow> int \<times> int \<times> int \<times> int \<times> int \<times> int \<times> int" where
  "utc_fields t =
     (let s = micros t div 1000000;
          r = s mod 86400
      in case civil_from_days (s div 86400) of
           (y, m, d) \<Rightarrow> (y, m, d, r div 3600, r mod 3600 div 60, r mod 60, micros t mod 1000000))"

subsection \<open>\<^verbatim>\<open>parse_ts\<close>\<close>

definition CREATED_AT_FORMAT :: string where
  "CREATED_AT_FORMAT = ''%a %b %d %H:%M:%S %z %Y''"

text \<open>
  \<^verbatim>\<open>parse_ts(obj)\<close>, the same function in both scripts. \<^verbatim>\<open>datetime.strptime\<close> is the
  library's: the parameter \<open>strptime\<close> gives, for a string and a format, the parsed
  \<^verbatim>\<open>datetime\<close> or the exception raised. A value of \<^verbatim>\<open>created_at\<close> that is not a string makes
  \<^verbatim>\<open>strptime\<close> raise \<^verbatim>\<open>TypeError\<close>.
\<close>

definition parse_ts :: "(string \<Rightarrow> string \<Rightarrow> exn + datetime) \<Rightarrow> json \<Rightarrow> exn + datetime option" where
  "parse_ts strptime obj =
     (case obj_get obj ''timestamp_ms'' of
        Inl e \<Rightarrow> Inl e
      | Inr ms \<Rightarrow>
          if ms \<noteq> JNull then
            (case py_int ms of
               Inl e \<Rightarrow> Inl e
             | Inr n \<Rightarrow>
                 (case fromtimestamp_millis n of
                    Inl e \<Rightarrow> Inl e
                  | Inr t \<Rightarrow> Inr (Some t)))
          else
            (case obj_get obj ''created_at'' of
               Inl e \<Rightarrow> Inl e
             | Inr created \<Rightarrow>
                 if truthy created then
                   (case created of
                      JStr s \<Rightarrow>
                        (case strptime s CREATED_AT_FORMAT of
                           Inl e \<Rightarrow> Inl e
                         | Inr t \<Rightarrow> Inr (Some t))
                    | _ \<Rightarrow> Inl TypeError)
                 else Inr None))"

section \<open>Row projection: \<^verbatim>\<open>extract_row\<close>\<close>

text \<open>
  The ten values \<^verbatim>\<open>extract_row\<close> returns, named as in its docstring. Python's \<^verbatim>\<open>None\<close> is
  \<open>JNull\<close>; in the two JSONB columns \<open>Some v\<close> is psycopg2's wrapper \<^verbatim>\<open>Json(v)\<close> and \<open>None\<close>
  is \<^verbatim>\<open>None\<close>.
\<close>

record cols =
  lang :: json
  source :: json
  screen_name :: json
  place :: json
  quote_count :: json
  favorited :: json
  coordinates :: "json option"
  entities :: "json option"
  friends_count :: json
  user_id :: json

text \<open>\<^verbatim>\<open>x[:100]\<close>: a string and a list are cut to their first 100 items; the other values
  cannot be sliced (for a dictionary Python 3.12 raises \<^verbatim>\<open>KeyError\<close> where older versions
  raise \<^verbatim>\<open>TypeError\<close>; the model has \<open>TypeError\<close> for both).\<close>

fun slice100 :: "json \<Rightarrow> exn + json" where
  "slice100 (JStr s) = Inr (JStr (take 100 s))"
| "slice100 (JList xs) = Inr (JList (take 100 xs))"
| "slice100 _ = Inl TypeError"

text \<open>\<^verbatim>\<open>Json(x) if x and isinstance(x, dict) else None\<close>.\<close>

definition json_if_dict :: "json \<Rightarrow> json option" where
  "json_if_dict x = (if truthy x \<and> is_dict x then Some x else None)"

text \<open>\<^verbatim>\<open>u.get(k)\<close> where \<open>u\<close> is \<^verbatim>\<open>obj.get("user") or {}\<close>: any value but a dictionary has no
  \<^verbatim>\<open>get\<close>.\<close>

fun extract_row :: "json \<Rightarrow> exn + cols" where
  "extract_row (JDict d) =
     (let user = py_or (dict_get d ''user'') (JDict []);
          pl = dict_get d ''place'';
          place_name = (case pl of
                          JDict p \<Rightarrow> if truthy pl then dict_get p ''name'' else JNull
                        | _ \<Rightarrow> JNull);
          coords = dict_get d ''coordinates'';
          entities_data = dict_get d ''entities''
      in case slice100 (py_or (dict_get d ''source'') (JStr [])) of
           Inl e \<Rightarrow> Inl e
         | Inr src \<Rightarrow>
             (case obj_get user ''screen_name'' of
                Inl e \<Rightarrow> Inl e
              | Inr sn \<Rightarrow>
                  (case obj_get user ''friends_count'' of
                     Inl e \<Rightarrow> Inl e
                   | Inr fc \<Rightarrow>
                       (case obj_get user ''id'' of
                          Inl e \<Rightarrow> Inl e
                        | Inr uid \<Rightarrow>
                            Inr \<lparr>lang = py_or (dict_get d ''lang'') (JStr ''und''),
                                 source = src,
                                 screen_name = sn,
                                 place = place_name,
                                 quote_count = dict_get d ''quote_count'',
                                 favorited = dict_get d ''favorited'',
                                 coordinates = json_if_dict coords,
                                 entities = json_if_dict entities_data,
                                 friends_count = fc,
                                 user_id = uid\<rparr>))))"
| "extract_row _ = Inl AttributeError"

section \<open>The ingestion worker: \<^verbatim>\<open>process_files\<close>\<close>

text \<open>A row handed to the store: the tuple \<^verbatim>\<open>(ts, id_str, *row)\<close>.\<close>

record row =
  ts :: datetime
  id_str :: json
  rest :: cols

text \<open>
  The table \<^verbatim>\<open>tweets\<close> is the list of its rows. Its uniqueness constraint is on
  \<^verbatim>\<open>(ts, id_str)\<close>: the instant and the identifier as handed over. One
  \<^verbatim>\<open>INSERT ... ON CONFLICT (ts, id_str) DO NOTHING\<close> statement over a list of rows adds, in
  order, every row whose key the table does not hold yet, and reports how many it added.
  The store accepts every row: errors of the connection or of the column types are not
  modelled.
\<close>

definition row_key :: "row \<Rightarrow> int \<times> json" where
  "row_key r = (micros (ts r), id_str r)"

fun insert_do_nothing :: "row list \<Rightarrow> row list \<Rightarrow> row list \<times> int" where
  "insert_do_nothing tbl [] = (tbl, 0)"
| "insert_do_nothing tbl (r # rs) =
     (if row_key r \<in> set (map row_key tbl) then insert_do_nothing tbl rs
      else (case insert_do_nothing (tbl @ [r]) rs of (tbl', n) \<Rightarrow> (tbl', n + 1)))"

text \<open>psycopg2's \<^verbatim>\<open>_paginate(seq, page_size)\<close>: consecutive pages of \<open>page_size\<close> items, the
  last one shorter; no page for an empty sequence.\<close>

function paginate :: "nat \<Rightarrow> 'a list \<Rightarrow> 'a list list" where
  "paginate page_size xs =
     (if xs = [] \<or> page_size = 0 then []
      else take page_size xs # paginate page_size (drop page_size xs))"
  by pat_completeness auto
termination
  by (relation "measure (\<lambda>(page_size, xs). length xs)") auto

text \<open>The default of \<^verbatim>\<open>execute_values\<close>' parameter \<^verbatim>\<open>page_size\<close>; the worker does not pass
  another.\<close>

definition PAGE_SIZE :: nat where
  "PAGE_SIZE = 100"

text \<open>
  The state of one worker: the table, the cursor's \<^verbatim>\<open>rowcount\<close> (that of the last statement
  executed, \<open>- 1\<close> before the first), the batch buffer and the three counters.
\<close>

record worker =
  tweets :: "row list"
  rowcount :: int
  batch :: "row list"
  inserted :: int
  skipped :: int
  read_count :: int

text \<open>
  \<^verbatim>\<open>execute_values(cur, INSERT_SQL, batch, template=...)\<close>: psycopg2 executes one statement
  per page of the argument list, so that afterwards \<^verbatim>\<open>cur.rowcount\<close> is the count of the
  last page's statement.
\<close>

definition execute_page :: "worker \<Rightarrow> row list \<Rightarrow> worker" where
  "execute_page w page =
     (case insert_do_nothing (tweets w) page of
        (tbl, n) \<Rightarrow> w\<lparr>tweets := tbl, rowcount := n\<rparr>)"

definition execute_values :: "worker \<Rightarrow> row list \<Rightarrow> worker" where
  "execute_values w argslist = foldl execute_page w (paginate PAGE_SIZE argslist)"

text \<open>The flush of the batch: \<^verbatim>\<open>execute_values\<close>, \<^verbatim>\<open>inserted += cur.rowcount\<close>,
  \<^verbatim>\<open>conn.commit()\<close>, \<^verbatim>\<open>batch = []\<close>. The table of the model is the committed one.\<close>

definition flush :: "worker \<Rightarrow> worker" where
  "flush w =
     (let w' = execute_values w (batch w)
      in w'\<lparr>inserted := inserted w' + rowcount w', batch := []\<rparr>)"

text \<open>
  What a worker finds around it: \<^verbatim>\<open>json.loads\<close> (\<open>None\<close> is \<^verbatim>\<open>JSONDecodeError\<close>),
  \<^verbatim>\<open>datetime.strptime\<close>, the constant \<^verbatim>\<open>BATCH_SIZE\<close> and the files: the lines of each path
  that is a file, \<open>None\<close> for a path where \<^verbatim>\<open>os.path.isfile\<close> is false.
\<close>

record env =
  json_loads :: "string \<Rightarrow> json option"
  strptime :: "string \<Rightarrow> string \<Rightarrow> exn + datetime"
  BATCH_SIZE :: int
  files :: "string \<Rightarrow> string list option"

definition skip :: "worker \<Rightarrow> worker" where
  "skip w = w\<lparr>skipped := skipped w + 1\<rparr>"

text \<open>\<^verbatim>\<open>obj.get("id_str") or str(obj.get("id", ""))\<close>.\<close>

definition resolve_id :: "(string \<times> json) list \<Rightarrow> json" where
  "resolve_id d =
     py_or (dict_get d ''id_str'') (JStr (py_str (dict_get_default d ''id'' (JStr []))))"

text \<open>\<^verbatim>\<open>batch.append((ts, id_str, *row))\<close> and the flush of a batch that has reached
  \<^verbatim>\<open>BATCH_SIZE\<close>.\<close>

definition append_row :: "env \<Rightarrow> worker \<Rightarrow> row \<Rightarrow> worker" where
  "append_row E w r =
     (let w' = w\<lparr>batch := batch w @ [r]\<rparr>
      in if int (length (batch w')) \<ge> BATCH_SIZE E then flush w' else w')"

text \<open>The body of the loop over the lines of a file.\<close>

definition process_line :: "env \<Rightarrow> worker \<Rightarrow> string \<Rightarrow> exn + worker" where
  "process_line E w raw =
     (let line = strip raw in
      if line = [] then Inr w
      else
        let w1 = w\<lparr>read_count := read_count w + 1\<rparr> in
        case json_loads E line of
          None \<Rightarrow> Inr (skip w1)
        | Some obj \<Rightarrow>
            (case parse_ts (strptime E) obj of
               Inl e \<Rightarrow> Inl e
             | Inr None \<Rightarrow> Inr (skip w1)
             | Inr (Some t) \<Rightarrow>
                 (case obj of
                    JDict d \<Rightarrow>
                      let ident = resolve_id d in
                      if \<not> truthy ident then Inr (skip w1)
                      else
                        (case extract_row obj of
                           Inl e \<Rightarrow> Inl e
                         | Inr c \<Rightarrow> Inr (append_row E w1 \<lparr>ts = t, id_str = ident, rest = c\<rparr>))
                  | _ \<Rightarrow> Inl AttributeError)))"

fun process_lines :: "env \<Rightarrow> worker \<Rightarrow> string list \<Rightarrow> exn + worker" where
  "process_lines E w [] = Inr w"
| "process_lines E w (l # ls) =
     (case process_line E w l of
        Inl e \<Rightarrow> Inl e
      | Inr w' \<Rightarrow> process_lines E w' ls)"

text \<open>The loop over the paths of the chunk: a path that is not a file is passed over.\<close>

fun process_paths :: "env \<Rightarrow> worker \<Rightarrow> string list \<Rightarrow> exn + worker" where
  "process_paths E w [] = Inr w"
| "process_paths E w (p # ps) =
     (case files E p of
        None \<Rightarrow> process_paths E w ps
      | Some ls \<Rightarrow>
          (case process_lines E w ls of
             Inl e \<Rightarrow> Inl e
           | Inr w' \<Rightarrow> process_paths E w' ps))"

definition connect :: "row list \<Rightarrow> worker" where
  "connect tbl =
     \<lparr>tweets = tbl, rowcount = - 1, batch = [], inserted = 0, skipped = 0, read_count = 0\<rparr>"

text \<open>The whole run of a worker on a chunk, up to the last flush: the final state, or the
  exception that ended it.\<close>

definition run_files :: "env \<Rightarrow> row list \<Rightarrow> string list \<Rightarrow> exn + worker" where
  "run_files E tbl file_paths =
     (case process_paths E (connect tbl) file_paths of
        Inl e \<Rightarrow> Inl e
      | Inr w \<Rightarrow> Inr (if batch w \<noteq> [] then flush w else w))"

text \<open>\<^verbatim>\<open>process_files\<close> returns \<^verbatim>\<open>(inserted, skipped, read_count)\<close>.\<close>

definition process_files :: "env \<Rightarrow> row list \<Rightarrow> string list \<Rightarrow> exn + int \<times> int \<times> int" where
  "process_files E tbl file_paths =
     (case run_files E tbl file_paths of
        Inl e \<Rightarrow> Inl e
      | Inr w \<Rightarrow> Inr (inserted w, skipped w, read_count w))"

text \<open>
  For statements about the counters: the lines of the files of a chunk, in the order the
  worker reads them, the number of lines that are not blank, and the relation the three
  counters and the batch buffer keep during a run.
\<close>

definition lines_of :: "env \<Rightarrow> string list \<Rightarrow> string list" where
  "lines_of E file_paths =
     concat (map (\<lambda>p. case files E p of None \<Rightarrow> [] | Some ls \<Rightarrow> ls) file_paths)"

definition non_blank :: "string list \<Rightarrow> int" where
  "non_blank ls = int (length (filter (\<lambda>l. strip l \<noteq> []) ls))"

definition counts_ok :: "worker \<Rightarrow> bool" where
  "counts_ok w \<longleftrightarrow>
     0 \<le> inserted w \<and> 0 \<le> skipped w
     \<and> inserted w + skipped w + int (length (batch w)) \<le> read_count w"

section \<open>File partitioning in \<^verbatim>\<open>main\<close>\<close>

text \<open>\<^verbatim>\<open>f.endswith(suffix)\<close>.\<close>

definition endswith :: "string \<Rightarrow> string \<Rightarrow> bool" where
  "endswith f suffix = (length suffix \<le> length f \<and> drop (length f - length suffix) f = suffix)"

text \<open>\<^verbatim>\<open>xs[:m]\<close>: a negative bound counts from the end.\<close>

definition slice_to :: "int \<Rightarrow> 'a list \<Rightarrow> 'a list" where
  "slice_to m xs = (if m < 0 then take (nat (int (length xs) + m)) xs else take (nat m) xs)"

text \<open>\<^verbatim>\<open>range(0, n, step)\<close> for a positive step.\<close>

definition range_step :: "nat \<Rightarrow> nat \<Rightarrow> nat list" where
  "range_step n step = map (\<lambda>j. j * step) [0 ..< (n + step - 1) div step]"

text \<open>\<^verbatim>\<open>[files[i : i + chunk_size] for i in range(0, len(files), chunk_size)]\<close>.\<close>

definition chunks_of :: "nat \<Rightarrow> 'a list \<Rightarrow> 'a list list" where
  "chunks_of chunk_size fs = map (\<lambda>i. take chunk_size (drop i fs)) (range_step (length fs) chunk_size)"

text \<open>The constants \<^verbatim>\<open>main\<close> reads: \<^verbatim>\<open>CHUNK_SIZE\<close>, \<^verbatim>\<open>N_WORKERS\<close> and the variable
  \<^verbatim>\<open>MAX_FILES\<close> of the environment (0 when unset).\<close>

record config =
  CHUNK_SIZE :: int
  N_WORKERS :: int
  MAX_FILES :: int

text \<open>The files \<^verbatim>\<open>main\<close> works on, from the result of \<^verbatim>\<open>glob.glob\<close>: the side files
  are left out, the rest is sorted and cut to \<^verbatim>\<open>max_files\<close>.\<close>

definition discover :: "config \<Rightarrow> string list \<Rightarrow> string list" where
  "discover C globbed =
     (let fs0 = sort (filter (\<lambda>f. \<not> endswith f ''Zone.Identifier'') globbed);
          max_files = (if MAX_FILES C = 0 then int (length fs0) else MAX_FILES C)
      in slice_to max_files fs0)"

text \<open>
  \<^verbatim>\<open>main\<close> from there up to the pool: the chunks and the size \<open>n\<close> of the pool.
  \<open>Inr None\<close> is the early return on "No files found."; a step of zero makes \<^verbatim>\<open>range\<close>
  raise \<^verbatim>\<open>ValueError\<close>, and so does \<^verbatim>\<open>Pool(n)\<close> for \<open>n < 1\<close>. A negative step gives an empty
  range.
\<close>

definition main :: "config \<Rightarrow> string list \<Rightarrow> exn + (string list list \<times> int) option" where
  "main C globbed =
     (let fs = discover C globbed
      in if fs = [] then Inr None
         else
           let chunk_size = min (CHUNK_SIZE C) (int (length fs)) in
           if chunk_size = 0 then Inl ValueError
           else
             let chunks = (if chunk_size < 0 then [] else chunks_of (nat chunk_size) fs);
                 n = min (N_WORKERS C) (int (length chunks))
             in if n < 1 then Inl ValueError else Inr (Some (chunks, n)))"

section \<open>Library stand-ins for examples\<close>

text \<open>
  Examples run the worker on concrete lines. There \<^verbatim>\<open>json.loads\<close> is a finite table from
  lines to documents (\<open>map_of\<close>: every other line fails to decode), and \<^verbatim>\<open>strptime\<close> is a
  finite table from strings to parsed values: every other string does not match the
  format.
\<close>

definition strptime_of :: "(string \<times> datetime) list \<Rightarrow> string \<Rightarrow> string \<Rightarrow> exn + datetime" where
  "strptime_of tbl s fmt = (case map_of tbl s of None \<Rightarrow> Inl ValueError | Some t \<Rightarrow> Inr t)"

text \<open>
  A file of \<open>n\<close> well-formed lines with the same timestamp and \<open>n\<close> different
  identifiers (\<^verbatim>\<open>"x"\<close>, \<^verbatim>\<open>"xx"\<close>, ...), read with the default \<^verbatim>\<open>BATCH_SIZE\<close> of 10000.
\<close>

definition sample_id :: "nat \<Rightarrow> string" where
  "sample_id i = replicate (Suc i) (CHR ''x'')"

definition sample_line :: "nat \<Rightarrow> string" where
  "sample_line i = ''{\"timestamp_ms\": 1700000000000, \"id_str\": \"'' @ sample_id i @ ''\"}''"

definition sample_doc :: "nat \<Rightarrow> json" where
  "sample_doc i = JDict [(''timestamp_ms'', JInt 1700000000000), (''id_str'', JStr (sample_id i))]"

definition sample_row :: "nat \<Rightarrow> row" where
  "sample_row i =
     \<lparr>ts = \<lparr>micros = 1700000000000000, utcoffset = 0\<rparr>, id_str = JStr (sample_id i),
      rest = \<lparr>lang = JStr ''und'', source = JStr [], screen_name = JNull, place = JNull,
        quote_count = JNull, favorited = JNull, coordinates = None, entities = None,
        friends_count = JNull, user_id = JNull\<rparr>\<rparr>"

definition sample_env :: "nat \<Rightarrow> env" where
  "sample_env n =
     \<lparr>json_loads = map_of (map (\<lambda>i. (sample_line i, sample_doc i)) [0..<n]),
      strptime = strptime_of [],
      BATCH_SIZE = 10000,
      files = map_of [(''raw1.json'', map sample_line [0..<n])]\<rparr>"

text \<open>
  Two files whose first line carries a malformed timestamp (a \<^verbatim>\<open>timestamp_ms\<close> that is not
  a number; a \<^verbatim>\<open>created_at\<close> that does not match the format) and whose second line is
  well-formed.
\<close>

definition bad_ts_env :: env where
  "bad_ts_env =
     \<lparr>json_loads = map_of
        [(''{\"timestamp_ms\": \"abc\", \"id_str\": \"1\"}'',
          JDict [(''timestamp_ms'', JStr ''abc''), (''id_str'', JStr ''1'')]),
         (''{\"created_at\": \"yesterday\", \"id_str\": \"2\"}'',
          JDict [(''created_at'', JStr ''yesterday''), (''id_str'', JStr ''2'')]),
         (''{\"timestamp_ms\": \"1700000000000\", \"id_str\": \"42\", \"lang\": \"en\"}'',
          JDict [(''timestamp_ms'', JStr ''1700000000000''), (''id_str'', JStr ''42''), (''lang'', JStr ''en'')])],
      strptime = strptime_of [],
      BATCH_SIZE = 10000,
      files = map_of
        [(''raw1.json'',
          [''{\"timestamp_ms\": \"abc\", \"id_str\": \"1\"}\<newline>'',
           ''{\"timestamp_ms\": \"1700000000000\", \"id_str\": \"42\", \"lang\": \"en\"}\<newline>'']),
         (''raw2.json'',
          [''{\"created_at\": \"yesterday\", \"id_str\": \"2\"}\<newline>'',
           ''{\"timestamp_ms\": \"1700000000000\", \"id_str\": \"42\", \"lang\": \"en\"}\<newline>''])]\<rparr>"

text \<open>Lines without a timestamp, without an identifier and with a \<^verbatim>\<open>null\<close> identifier.\<close>

definition id_env :: env where
  "id_env =
     \<lparr>json_loads = map_of
        [(''{\"id\": 7}'', JDict [(''id'', JInt 7)]),
         (''{\"timestamp_ms\": 1700000000000}'', JDict [(''timestamp_ms'', JInt 1700000000000)]),
         (''{\"timestamp_ms\": 1700000000000, \"id\": null}'',
          JDict [(''timestamp_ms'', JInt 1700000000000), (''id'', JNull)])],
      strptime = strptime_of [],
      BATCH_SIZE = 10000,
      files = map_of
        [(''raw1.json'', [''{\"id\": 7}\<newline>'']),
         (''raw2.json'', [''{\"timestamp_ms\": 1700000000000, \"id\": null}\<newline>''])]\<rparr>"

text \<open>What \<^verbatim>\<open>glob.glob\<close> may return for 45 data files and one side file.\<close>

definition sample_path :: "nat \<Rightarrow> string" where
  "sample_path i = ''/data/raw'' @ digits_of_int (int i) @ ''.json''"

definition sample_glob :: "string list" where
  "sample_glob = rev (map sample_path [10..<55]) @ [''/data/raw10.json:Zone.Identifier'']"

section \<open>Auxiliary facts\<close>

declare paginate.simps [simp del]
declare digits_of_int.simps [simp del]
declare extract_row.simps [simp del]
declare pow2.simps [simp del]
declare bit_length.simps [simp del]

subsection \<open>Rounding to a double\<close>

lemma pow2_eq: "pow2 k = 2 ^ nat k"
proof (induction k rule: pow2.induct)
  case (1 k)
  show ?case
  proof (cases "k \<le> 0")
    case True
    then show ?thesis by (subst pow2.simps) simp
  next
    case False
    then have "nat k = Suc (nat (k - 1))" by simp
    with 1 False show ?thesis by (subst pow2.simps) simp
  qed
qed

lemma pow2_pos: "0 < pow2 k"
  by (simp add: pow2_eq)

lemma pow2_nonpos: "k \<le> 0 \<Longrightarrow> pow2 k = 1"
  by (simp add: pow2_eq)

lemma pow2_add: "0 \<le> i \<Longrightarrow> 0 \<le> j \<Longrightarrow> pow2 (i + j) = pow2 i * pow2 j"
  by (simp add: pow2_eq nat_add_distrib power_add)

lemma pow2_Suc: "0 \<le> i \<Longrightarrow> pow2 (i + 1) = 2 * pow2 i"
  using pow2_add [of i 1] by (simp add: pow2_eq)

lemma pow2_less_D: "pow2 i < pow2 j \<Longrightarrow> i < j"
proof (rule ccontr)
  assume a: "pow2 i < pow2 j"
  assume "\<not> i < j"
  then have "j \<le> i" by simp
  then have "nat j \<le> nat i" by (rule nat_mono)
  then have "(2::int) ^ nat j \<le> 2 ^ nat i" by (rule power_increasing) simp
  with a show False unfolding pow2_eq by linarith
qed

lemma pow2_mono: "i \<le> j \<Longrightarrow> pow2 i \<le> pow2 j"
  by (simp add: pow2_eq nat_mono power_increasing)

lemma bit_length_bounds:
  "0 < n \<Longrightarrow> pow2 (bit_length n - 1) \<le> n \<and> n < pow2 (bit_length n) \<and> 1 \<le> bit_length n"
proof (induction n rule: bit_length.induct)
  case (1 n)
  have b: "bit_length n = 1 + bit_length (n div 2)"
    using "1.prems" by (subst bit_length.simps) simp
  show ?case
  proof (cases "n div 2 = 0")
    case True
    then have "n = 1" using "1.prems" by presburger
    moreover have "bit_length (0::int) = 0" by (subst bit_length.simps) simp
    ultimately show ?thesis using b True by (simp add: pow2_eq)
  next
    case False
    then have pos: "0 < n div 2" using "1.prems" by presburger
    from "1.IH" [OF _ pos] "1.prems"
    have ih: "pow2 (bit_length (n div 2) - 1) \<le> n div 2" "n div 2 < pow2 (bit_length (n div 2))"
      "1 \<le> bit_length (n div 2)" by simp_all
    have s: "pow2 (bit_length (n div 2)) = 2 * pow2 (bit_length (n div 2) - 1)"
      using pow2_Suc [of "bit_length (n div 2) - 1"] ih(3) by simp
    have s2: "pow2 (1 + bit_length (n div 2)) = 2 * pow2 (bit_length (n div 2))"
      using pow2_Suc [of "bit_length (n div 2)"] ih(3) by (simp add: add.commute)
    have "pow2 (bit_length n - 1) \<le> n" using b s ih(1) by simp
    moreover have "n < pow2 (bit_length n)" using b s2 ih(2) by simp
    ultimately show ?thesis using b ih(3) by simp
  qed
qed

lemma bit_length_le: "0 < n \<Longrightarrow> n < pow2 k \<Longrightarrow> bit_length n \<le> k"
proof -
  assume n: "0 < n" and "n < pow2 k"
  with bit_length_bounds [OF n] have "pow2 (bit_length n - 1) < pow2 k" by simp
  then show ?thesis using pow2_less_D by fastforce
qed

lemma bit_length_double: "0 < a \<Longrightarrow> bit_length (2 * a) = 1 + bit_length a"
  by (subst bit_length.simps) simp

lemma bit_length_scale: "0 < a \<Longrightarrow> bit_length (a * 2 ^ k) = bit_length a + int k"
proof (induction k)
  case 0
  then show ?case by simp
next
  case (Suc k)
  have "bit_length (a * 2 ^ Suc k) = bit_length (2 * (a * 2 ^ k))"
    by (simp add: mult.left_commute)
  moreover have "0 < a * 2 ^ k" using Suc.prems by simp
  ultimately show ?case using Suc bit_length_double [of "a * 2 ^ k"] by simp
qed

lemma rhe_div_err: "0 < b \<Longrightarrow> \<bar>2 * (rhe_div a b * b - a)\<bar> \<le> b"
proof -
  assume b: "0 < b"
  have a: "a = a div b * b + a mod b" by simp
  have r: "0 \<le> a mod b" "a mod b < b" using b by simp_all
  define f where "f = a div b"
  define r where "r = a mod b"
  have "rhe_div a b * b - a = (rhe_div a b - f) * b - r"
    using a by (simp add: f_def r_def algebra_simps)
  moreover have "rhe_div a b = (if 2 * r < b then f else if b < 2 * r then f + 1
      else if even f then f else f + 1)"
    by (simp add: rhe_div_def f_def r_def)
  ultimately show ?thesis using r b by (auto simp: r_def [symmetric] algebra_simps)
qed

lemma rhe_div_unique:
  assumes b: "0 < b" and c: "\<bar>2 * (c * b - a)\<bar> < b"
  shows "rhe_div a b = c"
proof -
  let ?m = "rhe_div a b"
  have "\<bar>2 * (?m * b - a)\<bar> \<le> b" using b by (rule rhe_div_err)
  with c have "\<bar>2 * (?m * b - a) - 2 * (c * b - a)\<bar> < 2 * b" by linarith
  then have "\<bar>(?m - c) * b\<bar> < 1 * b" by (simp add: algebra_simps)
  then have "\<bar>?m - c\<bar> * b < 1 * b" using b by (simp add: abs_mult)
  then have "\<bar>?m - c\<bar> < 1" using b by (simp only: mult_less_cancel_right)
  then show ?thesis by simp
qed

lemma rhe_div_scale: "0 < c \<Longrightarrow> rhe_div (a * c) (b * c) = rhe_div a b"
  by (simp add: rhe_div_def)

lemma rhe_div_one: "rhe_div a 1 = a"
  by (simp add: rhe_div_def)

lemma binade_lower0:
  assumes a: "0 < a" and q: "0 < q"
  defines "e \<equiv> bit_length a - bit_length q - 53"
  shows "pow2 52 * (q * pow2 e) \<le> a * pow2 (- e)"
proof -
  note A = bit_length_bounds [OF a] and Q = bit_length_bounds [OF q]
  show ?thesis
  proof (cases "0 \<le> e")
    case True
    have "q * pow2 e \<le> pow2 (bit_length q) * pow2 e"
      using Q pow2_pos [of e] by (intro mult_right_mono) simp_all
    also have "\<dots> = pow2 (bit_length q + e)"
      using Q True by (simp add: pow2_add)
    finally have "pow2 52 * (q * pow2 e) \<le> pow2 52 * pow2 (bit_length q + e)"
      using pow2_pos [of 52] by (intro mult_left_mono) simp_all
    also have "\<dots> = pow2 (52 + (bit_length q + e))"
      using Q True by (subst pow2_add) simp_all
    also have "52 + (bit_length q + e) = bit_length a - 1"
      by (simp add: e_def)
    also have "pow2 (bit_length a - 1) \<le> a" using A by simp
    finally show ?thesis using True by (simp add: pow2_nonpos)
  next
    case False
    then have k: "0 \<le> - e" by simp
    have "pow2 52 * q \<le> pow2 52 * pow2 (bit_length q)"
      using Q pow2_pos [of 52] by (intro mult_left_mono) simp_all
    also have "\<dots> = pow2 (52 + bit_length q)"
      using Q by (subst pow2_add) simp_all
    also have "52 + bit_length q = (bit_length a - 1) + (- e)"
      by (simp add: e_def)
    also have "pow2 ((bit_length a - 1) + (- e)) = pow2 (bit_length a - 1) * pow2 (- e)"
      using A k by (subst pow2_add) simp_all
    also have "\<dots> \<le> a * pow2 (- e)"
      using A pow2_pos [of "- e"] by (intro mult_right_mono) simp_all
    finally show ?thesis using False by (simp add: pow2_nonpos)
  qed
qed

lemma binade_upper0:
  assumes a: "0 < a" and q: "0 < q"
  defines "e \<equiv> bit_length a - bit_length q - 53"
  shows "a * pow2 (- e) < pow2 54 * (q * pow2 e)"
proof -
  note A = bit_length_bounds [OF a] and Q = bit_length_bounds [OF q]
  show ?thesis
  proof (cases "0 \<le> e")
    case True
    have "a < pow2 (bit_length a)" using A by simp
    also have "bit_length a = 54 + ((bit_length q - 1) + e)"
      by (simp add: e_def)
    also have "pow2 (54 + ((bit_length q - 1) + e)) = pow2 54 * (pow2 (bit_length q - 1) * pow2 e)"
      using Q True pow2_add [of 54 "(bit_length q - 1) + e"] pow2_add [of "bit_length q - 1" e]
      by simp
    also have "\<dots> \<le> pow2 54 * (q * pow2 e)"
      using Q pow2_pos [of 54] pow2_pos [of e]
      by (intro mult_left_mono mult_right_mono) simp_all
    finally show ?thesis using True by (simp add: pow2_nonpos)
  next
    case False
    then have k: "0 \<le> - e" by simp
    have "a * pow2 (- e) < pow2 (bit_length a) * pow2 (- e)"
      using A pow2_pos [of "- e"] by (intro mult_strict_right_mono) simp_all
    also have "\<dots> = pow2 (bit_length a + (- e))"
      using A k by (subst pow2_add) simp_all
    also have "bit_length a + (- e) = 54 + (bit_length q - 1)"
      by (simp add: e_def)
    also have "pow2 (54 + (bit_length q - 1)) = pow2 54 * pow2 (bit_length q - 1)"
      using Q by (subst pow2_add) simp_all
    also have "\<dots> \<le> pow2 54 * q"
      using Q pow2_pos [of 54] by (intro mult_left_mono) simp_all
    finally show ?thesis using False by (simp add: pow2_nonpos)
  qed
qed

lemma pow2_53: "pow2 53 = 2 * pow2 52"
  using pow2_Suc [of 52] by simp

lemma pow2_54: "pow2 54 = 2 * pow2 53"
  using pow2_Suc [of 53] by simp

lemma binade_bounds:
  assumes a: "0 < a" and q: "0 < q"
  shows "pow2 52 * (q * pow2 (binade a q)) \<le> a * pow2 (- binade a q)
    \<and> a * pow2 (- binade a q) < pow2 53 * (q * pow2 (binade a q))"
proof -
  define e where "e = bit_length a - bit_length q - 53"
  have L: "pow2 52 * (q * pow2 e) \<le> a * pow2 (- e)"
    unfolding e_def using a q by (rule binade_lower0)
  have U: "a * pow2 (- e) < pow2 54 * (q * pow2 e)"
    unfolding e_def using a q by (rule binade_upper0)
  show ?thesis
  proof (cases "pow2 53 * (q * pow2 e) \<le> a * pow2 (- e)")
    case False
    then have "binade a q = e" by (simp add: binade_def e_def)
    with L False show ?thesis by simp
  next
    case True
    then have b: "binade a q = e + 1" by (simp add: binade_def e_def)
    show ?thesis
    proof (cases "0 \<le> e")
      case True
      then have "pow2 (e + 1) = 2 * pow2 e" "pow2 (- (e + 1)) = 1" "pow2 (- e) = 1"
        by (simp_all add: pow2_Suc pow2_nonpos)
      with \<open>pow2 53 * (q * pow2 e) \<le> a * pow2 (- e)\<close> U b show ?thesis
        by (simp add: pow2_53 pow2_54)
    next
      case False
      then have "pow2 (e + 1) = 1" "pow2 e = 1" by (simp_all add: pow2_nonpos)
      moreover have "pow2 (- e) = 2 * pow2 (- (e + 1))"
        using pow2_Suc [of "- (e + 1)"] False by simp
      ultimately show ?thesis
        using \<open>pow2 53 * (q * pow2 e) \<le> a * pow2 (- e)\<close> U b
        by (simp add: pow2_53 pow2_54 mult_ac)
    qed
  qed
qed

lemma binade_scale:
  assumes a: "0 < a" and q: "0 < q"
  shows "binade (a * 2 ^ k) (q * 2 ^ k) = binade a q"
proof -
  have c: "(0::int) < 2 ^ k" by simp
  have "pow2 53 * (q * 2 ^ k * pow2 e) \<le> a * 2 ^ k * pow2 (- e)
      \<longleftrightarrow> pow2 53 * (q * pow2 e) \<le> a * pow2 (- e)" for e
  proof -
    have "pow2 53 * (q * 2 ^ k * pow2 e) = (pow2 53 * (q * pow2 e)) * 2 ^ k"
      by (simp add: algebra_simps)
    moreover have "a * 2 ^ k * pow2 (- e) = (a * pow2 (- e)) * 2 ^ k"
      by (simp add: algebra_simps)
    ultimately show ?thesis using c by (simp only: mult_le_cancel_right) simp
  qed
  then show ?thesis
    using a q by (simp add: binade_def bit_length_scale)
qed

lemma round_to_double_scale:
  assumes q: "0 < q"
  shows "round_to_double (p * 2 ^ k) (q * 2 ^ k) = round_to_double p q"
proof (cases "p = 0")
  case True
  then show ?thesis by (simp add: round_to_double_def)
next
  case False
  then have a: "0 < \<bar>p\<bar>" by simp
  have abs: "\<bar>p * 2 ^ k\<bar> = \<bar>p\<bar> * 2 ^ k" by (simp add: abs_mult)
  have b: "binade (\<bar>p\<bar> * 2 ^ k) (q * 2 ^ k) = binade \<bar>p\<bar> q"
    using a q by (rule binade_scale)
  have r: "rhe_div (\<bar>p\<bar> * 2 ^ k * x) (q * 2 ^ k * y) = rhe_div (\<bar>p\<bar> * x) (q * y)" for x y
  proof -
    have "rhe_div ((\<bar>p\<bar> * x) * 2 ^ k) ((q * y) * 2 ^ k) = rhe_div (\<bar>p\<bar> * x) (q * y)"
      by (rule rhe_div_scale) simp
    then show ?thesis by (simp add: mult.assoc mult.left_commute mult.commute)
  qed
  have s: "p * 2 ^ k < 0 \<longleftrightarrow> p < 0" by (simp add: mult_less_0_iff)
  show ?thesis
    using False by (simp add: round_to_double_def abs b r s Let_def)
qed

lemma round_to_double_pos:
  assumes "0 < p" and "- 1074 \<le> binade p q"
  shows "round_to_double p q
    = Double (rhe_div (p * pow2 (- binade p q)) (q * pow2 (binade p q))) (binade p q)"
  using assms by (simp add: round_to_double_def Let_def max_def)

lemma round_to_double_neg:
  assumes "0 < p" and "- 1074 \<le> binade p q"
  shows "round_to_double (- p) q
    = Double (- rhe_div (p * pow2 (- binade p q)) (q * pow2 (binade p q))) (binade p q)"
  using assms by (simp add: round_to_double_def Let_def max_def)

lemma pow2_numerals:
  "pow2 19 = 524288" "pow2 20 = 1048576" "pow2 32 = 4294967296" "pow2 33 = 8589934592"
  "pow2 52 = 4503599627370496" "pow2 53 = 9007199254740992"
  "pow2 62 = 4611686018427387904" "pow2 63 = 9223372036854775808"
  "pow2 115 = 41538374868278621028243970633760768"
  by (simp_all add: pow2_eq)

lemma float_of_int_exact:
  assumes n: "0 < n" "n < pow2 53"
  shows "\<exists>k. float_of_int n = Inr (Double (n * 2 ^ k) (- int k))
    \<and> float_of_int (- n) = Inr (Double (- n * 2 ^ k) (- int k))"
proof -
  define e where "e = binade n 1"
  from binade_bounds [of n 1] n
  have B1: "pow2 52 * pow2 e \<le> n * pow2 (- e)" and B2: "n * pow2 (- e) < pow2 53 * pow2 e"
    by (simp_all add: e_def)
  have e0: "e \<le> 0"
  proof (rule ccontr)
    assume "\<not> e \<le> 0"
    then have a: "pow2 (- e) = 1" "pow2 1 \<le> pow2 e" by (simp_all add: pow2_nonpos pow2_mono)
    have b: "pow2 1 = 2" by (simp add: pow2_eq)
    have c: "pow2 52 * pow2 1 \<le> pow2 52 * pow2 e"
      using a(2) pow2_pos [of 52] by (intro mult_left_mono) simp_all
    from c B1 n show False unfolding a(1) b pow2_53 by linarith
  qed
  then have P: "pow2 e = 1" by (rule pow2_nonpos)
  have "1 * pow2 (- e) \<le> n * pow2 (- e)"
    using n pow2_pos [of "- e"] by (intro mult_right_mono) simp_all
  with B2 P have M: "pow2 (- e) < pow2 53" "n * pow2 (- e) < pow2 53" by simp_all
  then have e1: "- 53 < e" using pow2_less_D [of "- e" 53] by simp
  define k where "k = nat (- e)"
  have k: "pow2 (- e) = 2 ^ k" "e = - int k" using e0 by (simp_all add: k_def pow2_eq)
  have pos: "0 < n * pow2 (- e)" using n pow2_pos [of "- e"] by simp
  have bl: "bit_length (n * pow2 (- e)) \<le> 53" using pos M(2) by (rule bit_length_le)
  have r1: "round_to_double n 1 = Double (n * pow2 (- e)) e"
    using round_to_double_pos [of n 1] n e1 P by (simp add: e_def rhe_div_one)
  have r2: "round_to_double (- n) 1 = Double (- (n * pow2 (- e))) e"
    using round_to_double_neg [of n 1] n e1 P by (simp add: e_def rhe_div_one)
  have "float_of_int n = Inr (Double (n * pow2 (- e)) e)"
    using r1 bl e0 pos by (simp add: float_of_int_def)
  moreover have "float_of_int (- n) = Inr (Double (- (n * pow2 (- e))) e)"
    using r2 bl e0 pos by (simp add: float_of_int_def)
  ultimately show ?thesis using k by auto
qed

lemma fdiv_exact:
  assumes "0 < c"
  shows "fdiv (Double (p * 2 ^ k) (- int k)) c = round_to_double p c"
proof -
  have "numer (Double (p * 2 ^ k) (- int k)) = p * 2 ^ k"
    by (simp add: numer_def pow2_nonpos)
  moreover have "denom (Double (p * 2 ^ k) (- int k)) = 2 ^ k"
    by (simp add: denom_def pow2_eq)
  moreover have "round_to_double (p * 2 ^ k) (c * 2 ^ k) = round_to_double p c"
    using assms by (rule round_to_double_scale)
  ultimately show ?thesis by (simp add: fdiv_def mult.commute)
qed

lemma quotient_double:
  assumes n: "0 < n" "n < 8589934592000"
  shows "\<exists>j m. 20 \<le> j \<and> j \<le> 62
    \<and> round_to_double n 1000 = Double m (- j)
    \<and> round_to_double (- n) 1000 = Double (- m) (- j)
    \<and> \<bar>2 * (m * 1000 - n * pow2 j)\<bar> \<le> 1000"
proof -
  define e where "e = binade n 1000"
  from binade_bounds [of n 1000] n
  have B1: "pow2 52 * (1000 * pow2 e) \<le> n * pow2 (- e)"
    and B2: "n * pow2 (- e) < pow2 53 * (1000 * pow2 e)"
    by (simp_all add: e_def)
  have e1: "e \<le> - 20"
  proof (rule ccontr)
    assume "\<not> e \<le> - 20"
    then have "pow2 (- e) \<le> pow2 19" by (intro pow2_mono) simp
    then have a: "n * pow2 (- e) \<le> n * pow2 19"
      using n by (intro mult_left_mono) simp_all
    have b: "1 \<le> pow2 e" using pow2_pos [of e] by simp
    from a b B1 n show False unfolding pow2_numerals by linarith
  qed
  then have P: "pow2 e = 1" by (intro pow2_nonpos) simp
  have e2: "- 62 \<le> e"
  proof (rule ccontr)
    assume "\<not> - 62 \<le> e"
    then have a: "pow2 63 \<le> pow2 (- e)" by (intro pow2_mono) simp
    have b: "1 * pow2 (- e) \<le> n * pow2 (- e)"
      using n pow2_pos [of "- e"] by (intro mult_right_mono) simp_all
    from a b B2 show False unfolding pow2_numerals P by linarith
  qed
  define m where "m = rhe_div (n * pow2 (- e)) 1000"
  have "round_to_double n 1000 = Double m e"
    using round_to_double_pos [of n 1000] n e2 P by (simp add: e_def m_def)
  moreover have "round_to_double (- n) 1000 = Double (- m) e"
    using round_to_double_neg [of n 1000] n e2 P by (simp add: e_def m_def)
  moreover have "\<bar>2 * (m * 1000 - n * pow2 (- e))\<bar> \<le> 1000"
    unfolding m_def by (rule rhe_div_err) simp
  ultimately show ?thesis using e1 e2
    by (intro exI [of _ "- e"] exI [of _ m]) simp
qed

lemma modf_quotient:
  assumes n: "0 < n" and j: "20 \<le> j"
    and err: "\<bar>2 * (m * 1000 - n * pow2 j)\<bar> \<le> 1000"
  defines "g \<equiv> m - n div 1000 * pow2 j"
  shows "0 \<le> g" "g < pow2 j" "\<bar>1000 * g - n mod 1000 * pow2 j\<bar> \<le> 500"
    "modf_int (Double m (- j)) = n div 1000"
    "modf_frac (Double m (- j)) = Double g (- j)"
    "modf_int (Double (- m) (- j)) = - (n div 1000)"
    "modf_frac (Double (- m) (- j)) = Double (- g) (- j)"
proof -
  define J where "J = pow2 j"
  define s where "s = n div 1000"
  define r where "r = n mod 1000"
  have J: "1048576 \<le> J" using pow2_mono [OF j] by (simp add: J_def pow2_numerals)
  have r: "0 \<le> r" "r \<le> 999" by (simp_all add: r_def)
  have s: "0 \<le> s" using n by (simp add: s_def)
  have nn: "n = 1000 * s + r" by (simp add: s_def r_def)
  have rJ: "0 \<le> r * J" "r * J \<le> 999 * J"
    using r J by (simp_all add: mult_right_mono)
  have "n * J = 1000 * (s * J) + r * J" by (simp add: nn algebra_simps)
  with err have E: "\<bar>1000 * (m - s * J) - r * J\<bar> \<le> 500"
    by (simp add: J_def [symmetric] algebra_simps)
  have gd: "g = m - s * J" by (simp add: g_def s_def J_def)
  from E have E2: "- 500 \<le> 1000 * g - r * J" "1000 * g - r * J \<le> 500"
    unfolding gd by linarith+
  from E2 rJ have "- 500 \<le> 1000 * g" by linarith
  then show g0: "0 \<le> g" by arith
  from E2 rJ J have "1000 * g < 1000 * J" by linarith
  then show g1: "g < pow2 j" unfolding J_def by arith
  show "\<bar>1000 * g - n mod 1000 * pow2 j\<bar> \<le> 500"
    using E gd by (simp add: r_def J_def)
  have sJ: "0 \<le> s * J" using s J by simp
  have m: "m = s * J + g" using gd by simp
  then have m0: "0 \<le> m" using sJ g0 by simp
  have Jpos: "0 < J" using J by simp
  have d: "m div J = s"
    using g0 g1 Jpos unfolding m J_def [symmetric] by simp
  have nu: "numer (Double m (- j)) = m" "denom (Double m (- j)) = J"
    "numer (Double (- m) (- j)) = - m" "denom (Double (- m) (- j)) = J"
    using j by (simp_all add: numer_def denom_def pow2_nonpos J_def)
  show i1: "modf_int (Double m (- j)) = n div 1000"
    using nu m0 d by (simp add: modf_int_def s_def)
  show "modf_frac (Double m (- j)) = Double g (- j)"
    using nu i1 by (simp add: modf_frac_def g_def J_def)
  show i2: "modf_int (Double (- m) (- j)) = - (n div 1000)"
  proof (cases "m = 0")
    case True
    with m sJ g0 have "s * J = 0" by linarith
    with Jpos have "s = 0" by simp
    with True nu show ?thesis by (simp add: modf_int_def s_def)
  next
    case False
    with m0 have "\<not> 0 \<le> - m" by simp
    with nu d show ?thesis by (simp add: modf_int_def s_def)
  qed
  show "modf_frac (Double (- m) (- j)) = Double (- g) (- j)"
    using nu i2 by (simp add: modf_frac_def g_def J_def)
qed

lemma micro_round:
  assumes j: "20 \<le> j" "j \<le> 62"
    and g: "0 \<le> g" "g < pow2 j"
    and r: "0 \<le> r" "r \<le> 999"
    and err: "\<bar>1000 * g - r * pow2 j\<bar> \<le> 500"
  shows "round_half_even (fmul (Double g (- j)) 1000000) = 1000 * r"
    and "round_half_even (fmul (Double (- g) (- j)) 1000000) = - (1000 * r)"
proof -
  define J where "J = pow2 j"
  have J: "1048576 \<le> J" "J \<le> pow2 62"
    using pow2_mono [OF j(1)] pow2_mono [OF j(2)] by (simp_all add: J_def pow2_numerals)
  have Jpos: "0 < J" using J by simp
  have nu: "numer (Double g (- j)) = g" "denom (Double g (- j)) = J"
    "numer (Double (- g) (- j)) = - g" "denom (Double (- g) (- j)) = J"
    using j by (simp_all add: numer_def denom_def pow2_nonpos J_def)
  have f1: "fmul (Double g (- j)) 1000000 = round_to_double (g * 1000000) J"
    and f2: "fmul (Double (- g) (- j)) 1000000 = round_to_double (- (g * 1000000)) J"
    using nu by (simp_all add: fmul_def)
  have E: "\<bar>1000 * g - r * J\<bar> \<le> 500" using err by (simp add: J_def)
  have both: "round_half_even (round_to_double (g * 1000000) J) = 1000 * r
    \<and> round_half_even (round_to_double (- (g * 1000000)) J) = - (1000 * r)"
  proof (cases "g = 0")
    case True
    have "r * J \<le> 500" using E True by simp
    moreover have "r * 1048576 \<le> r * J" using r J by (intro mult_left_mono) simp_all
    ultimately have "r = 0" using r by simp
    with True show ?thesis
      by (simp add: round_to_double_def round_half_even_def numer_def denom_def pow2_nonpos
          rhe_div_one)
  next
    case False
    with g have gp: "0 < g" by simp
    define p where "p = g * 1000000"
    have pp: "0 < p" using gp by (simp add: p_def)
    define e where "e = binade p J"
    from binade_bounds [OF pp Jpos]
    have C1: "pow2 52 * (J * pow2 e) \<le> p * pow2 (- e)"
      and C2: "p * pow2 (- e) < pow2 53 * (J * pow2 e)"
      by (simp_all add: e_def)
    have pJ: "p < 1000000 * J" "1000000 \<le> p" using g gp by (simp_all add: p_def J_def)
    have e1: "e \<le> - 33"
    proof (rule ccontr)
      assume "\<not> e \<le> - 33"
      then have "pow2 (- e) \<le> pow2 32" by (intro pow2_mono) simp
      then have a: "p * pow2 (- e) \<le> p * pow2 32"
        using pp by (intro mult_left_mono) simp_all
      have b: "J * 1 \<le> J * pow2 e"
        using pow2_pos [of e] Jpos by (intro mult_left_mono) simp_all
      from a b C1 pJ show False unfolding pow2_numerals by linarith
    qed
    then have P: "pow2 e = 1" by (intro pow2_nonpos) simp
    have e2: "- 1074 \<le> e"
    proof (rule ccontr)
      assume "\<not> - 1074 \<le> e"
      then have a: "pow2 115 \<le> pow2 (- e)" by (intro pow2_mono) simp
      have b: "1 * pow2 (- e) \<le> p * pow2 (- e)"
        using pp pow2_pos [of "- e"] by (intro mult_right_mono) simp_all
      from a b C2 J show False unfolding pow2_numerals P by linarith
    qed
    define I where "I = pow2 (- e)"
    have I: "8589934592 \<le> I"
      using pow2_mono [of 33 "- e"] e1 by (simp add: I_def pow2_numerals)
    have Ipos: "0 < I" using I by simp
    define m where "m = rhe_div (p * I) J"
    have R1: "round_to_double p J = Double m e"
      using round_to_double_pos [of p J] pp e2 P by (simp add: e_def m_def I_def)
    have R2: "round_to_double (- p) J = Double (- m) e"
      using round_to_double_neg [of p J] pp e2 P by (simp add: e_def m_def I_def)
    have M: "\<bar>2 * (m * J - p * I)\<bar> \<le> J"
      unfolding m_def using Jpos by (rule rhe_div_err)
    have nz: "numer (Double m e) = m" "denom (Double m e) = I"
      "numer (Double (- m) e) = - m" "denom (Double (- m) e) = I"
      using P by (simp_all add: numer_def denom_def I_def)
    define D where "D = r * J - 1000 * g"
    have D: "\<bar>D\<bar> \<le> 500" using E by (simp add: D_def)
    have "\<bar>2000 * (I * D)\<bar> = 2000 * (I * \<bar>D\<bar>)"
      using Ipos by (simp add: abs_mult)
    also have "\<dots> \<le> 2000 * (I * 500)"
      using D Ipos by (intro mult_left_mono) simp_all
    finally have T1: "\<bar>2000 * (I * D)\<bar> \<le> 1000000 * I" by simp
    have "(2000 * (r * I) - 2 * m) * J = 2000 * (I * D) - 2 * (m * J - p * I)"
      by (simp add: D_def p_def algebra_simps)
    with T1 M have T2: "\<bar>(2000 * (r * I) - 2 * m) * J\<bar> \<le> 1000000 * I + J" by linarith
    have "8589934592 * (J - 1000000) \<le> I * (J - 1000000)"
      using I J by (intro mult_right_mono) simp_all
    then have T3: "1000000 * I + J < I * J" using J by (simp add: algebra_simps)
    have "\<bar>(2000 * (r * I) - 2 * m) * J\<bar> = \<bar>2000 * (r * I) - 2 * m\<bar> * J"
      using Jpos by (simp add: abs_mult)
    with T2 T3 have "\<bar>2000 * (r * I) - 2 * m\<bar> * J < I * J"
      by linarith
    then have T4: "\<bar>2000 * (r * I) - 2 * m\<bar> < I"
      using Jpos by (simp only: mult_less_cancel_right)
    have "rhe_div m I = 1000 * r"
      using Ipos by (rule rhe_div_unique) (use T4 in \<open>simp add: algebra_simps\<close>)
    moreover have "rhe_div (- m) I = - (1000 * r)"
      using Ipos by (rule rhe_div_unique) (use T4 in \<open>simp add: algebra_simps\<close>)
    ultimately show ?thesis
      using R1 R2 nz by (simp add: round_half_even_def p_def)
  qed
  from both f1 show "round_half_even (fmul (Double g (- j)) 1000000) = 1000 * r" by simp
  from both f2 show "round_half_even (fmul (Double (- g) (- j)) 1000000) = - (1000 * r)" by simp
qed

subsection \<open>Timestamps that the doubles keep exact\<close>

lemma fromtimestamp_millis_small:
  assumes n: "0 < n" "n < 8589934592000"
  shows "fromtimestamp_millis n = Inr \<lparr>micros = 1000 * n, utcoffset = 0\<rparr>"
    and "fromtimestamp_millis (- n) = Inr \<lparr>micros = 1000 * (- n), utcoffset = 0\<rparr>"
proof -
  define s where "s = n div 1000"
  define r where "r = n mod 1000"
  have r: "0 \<le> r" "r \<le> 999" by (simp_all add: r_def)
  have s: "0 \<le> s" "s \<le> 8589934591" using n by (simp_all add: s_def)
  have nn: "n = 1000 * s + r" by (simp add: s_def r_def)
  have "n < pow2 53" using n by (simp add: pow2_numerals)
  from float_of_int_exact [OF n(1) this] obtain k where
    k: "float_of_int n = Inr (Double (n * 2 ^ k) (- int k))"
       "float_of_int (- n) = Inr (Double (- n * 2 ^ k) (- int k))"
    by blast
  from quotient_double [OF n] obtain j m where
    j: "20 \<le> j" "j \<le> 62"
    and q: "round_to_double n 1000 = Double m (- j)"
           "round_to_double (- n) 1000 = Double (- m) (- j)"
    and err: "\<bar>2 * (m * 1000 - n * pow2 j)\<bar> \<le> 1000"
    by blast
  define g where "g = m - n div 1000 * pow2 j"
  note mq = modf_quotient [OF n(1) j(1) err, folded g_def]
  have e: "\<bar>1000 * g - r * pow2 j\<bar> \<le> 500" using mq(3) by (simp add: r_def)
  note mr = micro_round [OF j mq(1) mq(2) r e]
  have d1: "fromtimestamp_millis n = fromtimestamp (Double m (- j))"
    using k(1) q(1) fdiv_exact [of 1000 n k] by (simp add: fromtimestamp_millis_def)
  have d2: "fromtimestamp_millis (- n) = fromtimestamp (Double (- m) (- j))"
    using k(2) q(2) fdiv_exact [of 1000 "- n" k] by (simp add: fromtimestamp_millis_def)
  have "fromtimestamp (Double m (- j)) = Inr \<lparr>micros = 1000 * n, utcoffset = 0\<rparr>"
    using mq(4,5) mr(1) r s
    by (simp add: fromtimestamp_def Let_def MIN_SECONDS_def MAX_SECONDS_def s_def [symmetric] nn)
  with d1 show "fromtimestamp_millis n = Inr \<lparr>micros = 1000 * n, utcoffset = 0\<rparr>"
    by simp
  have "fromtimestamp (Double (- m) (- j)) = Inr \<lparr>micros = 1000 * (- n), utcoffset = 0\<rparr>"
    using mq(6,7) mr(2) r s
    by (simp add: fromtimestamp_def Let_def MIN_SECONDS_def MAX_SECONDS_def s_def [symmetric] nn)
  with d2 show "fromtimestamp_millis (- n) = Inr \<lparr>micros = 1000 * (- n), utcoffset = 0\<rparr>"
    by simp
qed

lemma fromtimestamp_millis_edges:
  "fromtimestamp_millis 0 = Inr \<lparr>micros = 0, utcoffset = 0\<rparr>"
  "fromtimestamp_millis 8589934592000 = Inr \<lparr>micros = 8589934592000000, utcoffset = 0\<rparr>"
  "fromtimestamp_millis (- 8589934592000) = Inr \<lparr>micros = - 8589934592000000, utcoffset = 0\<rparr>"
  by code_simp+

lemma fromtimestamp_millis_exact:
  assumes "\<bar>n\<bar> \<le> 8589934592000"
  shows "fromtimestamp_millis n = Inr \<lparr>micros = 1000 * n, utcoffset = 0\<rparr>"
proof -
  consider "n = 0" | "n = 8589934592000" | "n = - 8589934592000"
    | "0 < n" "n < 8589934592000" | "0 < - n" "- n < 8589934592000"
    using assms by linarith
  then show ?thesis
  proof cases
    case 1
    then show ?thesis by (simp add: fromtimestamp_millis_edges)
  next
    case 2
    then show ?thesis by (simp add: fromtimestamp_millis_edges)
  next
    case 3
    then show ?thesis by (simp add: fromtimestamp_millis_edges)
  next
    case 4
    then show ?thesis by (rule fromtimestamp_millis_small(1))
  next
    case 5
    from fromtimestamp_millis_small(2) [OF 5] show ?thesis by simp
  qed
qed

lemma fromtimestamp_millis_2023:
  "fromtimestamp_millis 1700000000000 = Inr \<lparr>micros = 1700000000000000, utcoffset = 0\<rparr>"
  using fromtimestamp_millis_exact [of 1700000000000] by simp

subsection \<open>The row projection and the worker\<close>

lemma digits_of_int_nonempty: "digits_of_int n \<noteq> []"
  by (subst digits_of_int.simps) simp

lemma py_repr_nonempty: "py_repr v \<noteq> []"
  by (cases v) (simp_all add: str_int_def digits_of_int_nonempty repr_str_def Let_def)

lemma py_str_empty_iff: "py_str v = [] \<longleftrightarrow> v = JStr []"
  by (cases v) (simp_all add: str_int_def digits_of_int_nonempty)

lemma extract_row_Inr:
  "extract_row (JDict d) = Inr c \<Longrightarrow>
     slice100 (py_or (dict_get d ''source'') (JStr [])) = Inr (source c)
   \<and> coordinates c = json_if_dict (dict_get d ''coordinates'')
   \<and> entities c = json_if_dict (dict_get d ''entities'')"
  by (auto simp: extract_row.simps Let_def split: sum.splits)

lemma extract_row_succeeds:
  "(\<exists>c. extract_row (JDict d) = Inr c) \<longleftrightarrow>
     (\<exists>v. slice100 (py_or (dict_get d ''source'') (JStr [])) = Inr v)
     \<and> is_dict (py_or (dict_get d ''user'') (JDict []))"
  by (cases "py_or (dict_get d ''user'') (JDict [])")
    (auto simp: extract_row.simps Let_def split: sum.splits)

lemma json_if_dict_Some: "json_if_dict x \<noteq> None \<longleftrightarrow> (\<exists>kvs. x = JDict kvs \<and> kvs \<noteq> [])"
  by (cases x) (simp_all add: json_if_dict_def)

lemma json_if_dict_cases: "json_if_dict x = None \<or> json_if_dict x = Some x"
  by (simp add: json_if_dict_def)

lemma json_if_dict_list: "json_if_dict (JList xs) = None"
  by (simp add: json_if_dict_def)

lemma paginate_one: "xs \<noteq> [] \<Longrightarrow> length xs \<le> n \<Longrightarrow> paginate n xs = [xs]"
proof -
  assume ne: "xs \<noteq> []" and le: "length xs \<le> n"
  from ne le have pos: "n \<noteq> 0" by (cases xs) auto
  have "paginate n (drop n xs) = []"
    using le by (subst paginate.simps) simp
  then show ?thesis
    using ne le pos by (subst paginate.simps) simp
qed

lemma paginate_two:
  "0 < n \<Longrightarrow> n < length xs \<Longrightarrow> length xs \<le> 2 * n \<Longrightarrow> paginate n xs = [take n xs, drop n xs]"
proof -
  assume pos: "0 < n" and lt: "n < length xs" and le: "length xs \<le> 2 * n"
  have "paginate n (drop n xs) = [drop n xs]"
    using lt le by (intro paginate_one) auto
  then show ?thesis
    using pos lt by (subst paginate.simps) auto
qed

lemma insert_do_nothing_fresh:
  "distinct (map row_key (tbl @ rs)) \<Longrightarrow> insert_do_nothing tbl rs = (tbl @ rs, int (length rs))"
proof (induction rs arbitrary: tbl)
  case Nil
  then show ?case by simp
next
  case (Cons r rs)
  from Cons.prems have fresh: "row_key r \<notin> set (map row_key tbl)"
    by auto
  from Cons.prems have "distinct (map row_key ((tbl @ [r]) @ rs))"
    by simp
  from Cons.IH [OF this] fresh show ?case
    by simp
qed

lemma strip_id:
  assumes "s \<noteq> []" "\<not> is_space (hd s)" "\<not> is_space (last s)"
  shows "strip s = s"
proof -
  from assms have a: "dropWhile is_space s = s"
    by (cases s) auto
  from assms have "dropWhile is_space (rev s) = rev s"
    by (cases "rev s") (auto simp: last_rev [symmetric] hd_rev)
  with a show ?thesis by (simp add: strip_def)
qed

lemma execute_values_one:
  "b \<noteq> [] \<Longrightarrow> length b \<le> PAGE_SIZE \<Longrightarrow> execute_values w b = execute_page w b"
  by (simp add: execute_values_def paginate_one)

lemma flush_single:
  "batch w = [r] \<Longrightarrow> tweets w = [] \<Longrightarrow>
   flush w = w\<lparr>tweets := [r], rowcount := 1, inserted := inserted w + 1, batch := []\<rparr>"
  by (simp add: flush_def execute_values_one PAGE_SIZE_def execute_page_def Let_def)

lemma process_line_row:
  assumes "strip raw \<noteq> []"
    and "json_loads E (strip raw) = Some (JDict d)"
    and "parse_ts (strptime E) (JDict d) = Inr (Some t)"
    and "truthy (resolve_id d)"
    and "extract_row (JDict d) = Inr c"
  shows "process_line E w raw
    = Inr (append_row E (w\<lparr>read_count := read_count w + 1\<rparr>) \<lparr>ts = t, id_str = resolve_id d, rest = c\<rparr>)"
  using assms by (simp add: process_line_def Let_def)

lemma sample_env_batch: "BATCH_SIZE (sample_env n) = 10000"
  by (simp add: sample_env_def)

lemma sample_env_files: "files (sample_env n) ''raw1.json'' = Some (map sample_line [0..<n])"
  by (simp add: sample_env_def)

lemma sample_id_inj: "sample_id i = sample_id j \<Longrightarrow> i = j"
proof -
  assume "sample_id i = sample_id j"
  then have "length (sample_id i) = length (sample_id j)" by simp
  then show "i = j" by (simp add: sample_id_def)
qed

lemma sample_line_inj: "inj sample_line"
  by (rule injI) (simp add: sample_line_def sample_id_inj)

lemma sample_loads:
  assumes "i < n"
  shows "json_loads (sample_env n) (sample_line i) = Some (sample_doc i)"
proof -
  let ?xys = "map (\<lambda>i. (sample_line i, sample_doc i)) [0..<n]"
  have "map fst ?xys = map sample_line [0..<n]"
    by (simp add: comp_def)
  then have d: "distinct (map fst ?xys)"
    using sample_line_inj by (simp add: distinct_map inj_on_def inj_def)
  have "i \<in> set [0..<n]"
    using assms by simp
  then have "(sample_line i, sample_doc i) \<in> set ?xys"
    by (simp only: set_map) (rule imageI)
  with d have "map_of ?xys (sample_line i) = Some (sample_doc i)"
    by (simp only: map_of_eq_Some_iff)
  then show ?thesis by (simp add: sample_env_def)
qed

lemma strip_sample: "strip (sample_line i) = sample_line i"
  by (rule strip_id) (simp_all add: sample_line_def is_space_def)

lemma parse_ts_sample:
  "parse_ts S (sample_doc i) = Inr (Some \<lparr>micros = 1700000000000000, utcoffset = 0\<rparr>)"
  by (simp add: sample_doc_def parse_ts_def dict_get_def fromtimestamp_millis_2023)

lemma extract_row_sample: "extract_row (sample_doc i) = Inr (rest (sample_row i))"
  by (simp add: sample_doc_def sample_row_def extract_row.simps dict_get_def py_or_def
      json_if_dict_def)

lemma resolve_id_sample:
  "resolve_id [(''timestamp_ms'', JInt 1700000000000), (''id_str'', JStr (sample_id i))] = JStr (sample_id i)"
  by (simp add: resolve_id_def dict_get_def py_or_def sample_id_def)

lemma process_line_sample:
  assumes "i < n"
  shows "process_line (sample_env n) w (sample_line i)
    = Inr (append_row (sample_env n) (w\<lparr>read_count := read_count w + 1\<rparr>) (sample_row i))"
proof -
  let ?d = "[(''timestamp_ms'', JInt 1700000000000), (''id_str'', JStr (sample_id i))]"
  have ne: "strip (sample_line i) \<noteq> []"
    unfolding strip_sample by (simp add: sample_line_def)
  have lo: "json_loads (sample_env n) (strip (sample_line i)) = Some (JDict ?d)"
    using sample_loads [OF assms] by (simp add: strip_sample sample_doc_def)
  have ts: "parse_ts (strptime (sample_env n)) (JDict ?d) = Inr (Some \<lparr>micros = 1700000000000000, utcoffset = 0\<rparr>)"
    using parse_ts_sample [of _ i] by (simp add: sample_doc_def)
  have tr: "truthy (resolve_id ?d)"
    by (simp add: resolve_id_sample) (simp add: sample_id_def)
  have ex: "extract_row (JDict ?d) = Inr (rest (sample_row i))"
    using extract_row_sample [of i] by (simp only: sample_doc_def)
  have r: "\<lparr>ts = \<lparr>micros = 1700000000000000, utcoffset = 0\<rparr>, id_str = resolve_id ?d, rest = rest (sample_row i)\<rparr> = sample_row i"
    by (simp add: sample_row_def resolve_id_sample)
  show ?thesis
    using process_line_row [OF ne lo ts tr ex] r by simp
qed

lemma process_lines_sample:
  assumes "\<forall>i \<in> set js. i < n"
    and "length (batch w) + length js < 10000"
  shows "process_lines (sample_env n) w (map sample_line js)
    = Inr (w\<lparr>read_count := read_count w + int (length js), batch := batch w @ map sample_row js\<rparr>)"
  using assms
proof (induction js arbitrary: w)
  case Nil
  then show ?case by simp
next
  case (Cons j js)
  let ?w = "w\<lparr>read_count := read_count w + 1, batch := batch w @ [sample_row j]\<rparr>"
  have j: "j < n" using Cons.prems(1) by simp
  have step: "process_line (sample_env n) w (sample_line j) = Inr ?w"
    using Cons.prems(2) by (simp add: process_line_sample [OF j] append_row_def sample_env_batch)
  have "process_lines (sample_env n) ?w (map sample_line js)
    = Inr (?w\<lparr>read_count := read_count ?w + int (length js), batch := batch ?w @ map sample_row js\<rparr>)"
    using Cons.prems by (intro Cons.IH) simp_all
  then show ?case
    using step by simp
qed

lemma sample_keys_distinct: "distinct js \<Longrightarrow> distinct (map row_key (map sample_row js))"
proof -
  have "inj (\<lambda>i. row_key (sample_row i))"
    by (rule injI) (simp add: row_key_def sample_row_def sample_id_inj)
  then have "inj_on (row_key \<circ> sample_row) (set js)"
    by (simp add: inj_on_def inj_def)
  then show "distinct js \<Longrightarrow> distinct (map row_key (map sample_row js))"
    by (simp add: distinct_map)
qed


lemma run_single_row:
  assumes fl: "files E p = Some [raw]"
    and line: "process_line E (connect []) raw
      = Inr (append_row E ((connect [])\<lparr>read_count := read_count (connect []) + 1\<rparr>) r)"
  shows "run_files E [] [p]
    = Inr \<lparr>tweets = [r], rowcount = 1, batch = [], inserted = 1, skipped = 0, read_count = 1\<rparr>"
proof -
  let ?w1 = "(connect [])\<lparr>read_count := read_count (connect []) + 1\<rparr>"
  have fin: "(let w = append_row E ?w1 r in if batch w \<noteq> [] then flush w else w)
      = \<lparr>tweets = [r], rowcount = 1, batch = [], inserted = 1, skipped = 0, read_count = 1\<rparr>"
    by (cases "BATCH_SIZE E \<le> 1") (simp_all add: append_row_def connect_def flush_single Let_def)
  then show ?thesis
    by (simp add: run_files_def fl line Let_def)
qed

lemma strip_line_42:
  "strip ''{\"timestamp_ms\": \"1700000000000\", \"id_str\": \"42\", \"lang\": \"en\"}\<newline>''
     = ''{\"timestamp_ms\": \"1700000000000\", \"id_str\": \"42\", \"lang\": \"en\"}''"
  by code_simp

lemma parse_ts_42:
  "parse_ts S (JDict [(''timestamp_ms'', JStr ''1700000000000''), (''id_str'', JStr ''42''), (''lang'', JStr ''en'')])
    = Inr (Some \<lparr>micros = 1700000000000000, utcoffset = 0\<rparr>)"
proof -
  have "py_int (JStr ''1700000000000'') = Inr 1700000000000" by code_simp
  then show ?thesis
    by (simp add: parse_ts_def dict_get_def fromtimestamp_millis_2023)
qed

lemma extract_row_42:
  "extract_row (JDict [(''timestamp_ms'', JStr ''1700000000000''), (''id_str'', JStr ''42''), (''lang'', JStr ''en'')])
    = Inr \<lparr>lang = JStr ''en'', source = JStr [], screen_name = JNull, place = JNull,
          quote_count = JNull, favorited = JNull, coordinates = None, entities = None,
          friends_count = JNull, user_id = JNull\<rparr>"
  by (simp add: extract_row.simps dict_get_def py_or_def json_if_dict_def)

lemma range_step_less:
  fixes j k n :: nat
  assumes "0 < k"
  shows "j < (n + k - 1) div k \<longleftrightarrow> j * k < n"
proof -
  have "j < (n + k - 1) div k \<longleftrightarrow> Suc j \<le> (n + k - 1) div k"
    by auto
  also have "\<dots> \<longleftrightarrow> Suc j * k \<le> n + k - 1"
    using assms by (simp only: less_eq_div_iff_mult_less_eq)
  also have "\<dots> \<longleftrightarrow> j * k < n"
    using assms by auto
  finally show ?thesis .
qed

lemma chunks_of_alt:
  "chunks_of k fs = map (\<lambda>j. take k (drop (j * k) fs)) [0 ..< (length fs + k - 1) div k]"
  by (simp add: chunks_of_def range_step_def comp_def)

lemma concat_take_chunks:
  "concat (map (\<lambda>j. take k (drop (j * k) fs)) [0 ..< m]) = take (m * k) fs"
proof (induction m)
  case 0
  then show ?case by simp
next
  case (Suc m)
  have "take (m * k) fs @ take k (drop (m * k) fs) = take (m * k + k) fs"
    by (simp add: take_add)
  with Suc show ?case by (simp add: add.commute)
qed

lemma concat_chunks_of:
  assumes "0 < k"
  shows "concat (chunks_of k fs) = fs"
proof -
  let ?m = "(length fs + k - 1) div k"
  have "\<not> ?m * k < length fs"
    using range_step_less [OF assms, of ?m "length fs"] by simp
  then show ?thesis
    by (simp add: chunks_of_alt concat_take_chunks)
qed

lemma chunks_of_member:
  assumes "0 < k" and "c \<in> set (chunks_of k fs)"
  shows "c \<noteq> [] \<and> length c \<le> k"
proof -
  from assms(2) obtain j where j: "j < (length fs + k - 1) div k" and c: "c = take k (drop (j * k) fs)"
    by (auto simp: chunks_of_alt)
  from j have "j * k < length fs"
    by (simp only: range_step_less [OF assms(1)])
  with assms(1) c show ?thesis by auto
qed

lemma chunks_of_butlast:
  assumes "0 < k" and "c \<in> set (butlast (chunks_of k fs))"
  shows "length c = k"
proof -
  let ?m = "(length fs + k - 1) div k"
  have "butlast [0 ..< ?m] = [0 ..< ?m - 1]"
    by (simp add: butlast_conv_take)
  then have "butlast (chunks_of k fs) = map (\<lambda>j. take k (drop (j * k) fs)) [0 ..< ?m - 1]"
    by (simp only: chunks_of_alt map_butlast [symmetric])
  with assms(2) obtain j where j: "j < ?m - 1" and c: "c = take k (drop (j * k) fs)"
    by auto
  from j have "Suc j < ?m" by simp
  then have "Suc j * k < length fs"
    by (simp only: range_step_less [OF assms(1)])
  then show ?thesis
    using c by simp
qed

lemma length_chunks_of: "length (chunks_of k fs) = (length fs + k - 1) div k"
  by (simp add: chunks_of_alt)

lemma chunks_of_45_20:
  assumes "length fs = 45"
  shows "map length (chunks_of 20 fs) = [20, 20, 5]"
proof -
  have "[0 ..< (45 + 20 - 1) div 20] = [0, 1, 2::nat]"
    by (simp add: upt_rec)
  then show ?thesis
    using assms by (simp add: chunks_of_alt)
qed


lemma process_line_skip_ts:
  assumes "strip raw \<noteq> []"
    and "json_loads E (strip raw) = Some obj"
    and "parse_ts (strptime E) obj = Inr None"
  shows "process_line E w raw = Inr (w\<lparr>read_count := read_count w + 1, skipped := skipped w + 1\<rparr>)"
  using assms by (simp add: process_line_def Let_def skip_def)

lemma process_line_skip_id:
  assumes "strip raw \<noteq> []"
    and "json_loads E (strip raw) = Some (JDict d)"
    and "parse_ts (strptime E) (JDict d) = Inr r"
    and "\<not> truthy (resolve_id d)"
  shows "process_line E w raw = Inr (w\<lparr>read_count := read_count w + 1, skipped := skipped w + 1\<rparr>)"
  using assms by (cases r) (simp_all add: process_line_def Let_def skip_def)

lemma process_line_raise:
  assumes "strip raw \<noteq> []"
    and "json_loads E (strip raw) = Some (JDict d)"
    and "parse_ts (strptime E) (JDict d) = Inr (Some t)"
    and "truthy (resolve_id d)"
    and "extract_row (JDict d) = Inl e"
  shows "process_line E w raw = Inl e"
  using assms by (simp add: process_line_def Let_def del: extract_row.simps)

lemma strip_line_7: "strip ''{\"id\": 7}\<newline>'' = ''{\"id\": 7}''"
  by code_simp

lemma resolve_id_7: "resolve_id [(''id'', JInt 7)] = JStr ''7''"
  by code_simp

lemma resolve_id_null:
  assumes "map_of d ''id_str'' = None" and "map_of d ''id'' = Some JNull"
  shows "resolve_id d = JStr ''None''"
  using assms by (simp add: resolve_id_def dict_get_def dict_get_default_def py_or_def)

lemma resolve_id_falsy:
  assumes "map_of d ''id_str'' = None"
  shows "\<not> truthy (resolve_id d) \<longleftrightarrow> map_of d ''id'' = None \<or> map_of d ''id'' = Some (JStr [])"
  using assms
  by (auto simp: resolve_id_def dict_get_def dict_get_default_def py_or_def py_str_empty_iff
      split: option.splits)

text \<open>The run of a worker on the sample file of \<open>n\<close> lines, for one page and for two
  pages of rows.\<close>

lemma sample_lines_read:
  assumes "n < 10000"
  shows "process_paths (sample_env n) (connect []) [''raw1.json'']
    = Inr ((connect [])\<lparr>read_count := int n, batch := map sample_row [0..<n]\<rparr>)"
proof -
  have "process_lines (sample_env n) (connect []) (map sample_line [0..<n])
      = Inr ((connect [])\<lparr>read_count := read_count (connect []) + int (length [0..<n]),
          batch := batch (connect []) @ map sample_row [0..<n]\<rparr>)"
    using assms by (intro process_lines_sample) (simp_all add: connect_def)
  then have "process_lines (sample_env n) (connect []) (map sample_line [0..<n])
      = Inr ((connect [])\<lparr>read_count := int n, batch := map sample_row [0..<n]\<rparr>)"
    by (simp add: connect_def)
  then show ?thesis
    by (simp add: sample_env_files)
qed

lemma sample_run_one_page:
  assumes "0 < n" and "n \<le> 100"
  shows "run_files (sample_env n) [] [''raw1.json'']
    = Inr \<lparr>tweets = map sample_row [0..<n], rowcount = int n, batch = [],
        inserted = int n, skipped = 0, read_count = int n\<rparr>"
proof -
  let ?b = "map sample_row [0..<n]"
  let ?w = "(connect [])\<lparr>read_count := int n, batch := ?b\<rparr>"
  have paths: "process_paths (sample_env n) (connect []) [''raw1.json''] = Inr ?w"
    using assms by (intro sample_lines_read) simp
  have ne: "?b \<noteq> []"
    using assms by simp
  have "distinct (map row_key ([] @ ?b))"
    using sample_keys_distinct [of "[0..<n]"] by simp
  from insert_do_nothing_fresh [OF this] have p: "insert_do_nothing [] ?b = (?b, int n)"
    by simp
  have "execute_values ?w ?b = execute_page ?w ?b"
    using ne assms by (intro execute_values_one) (simp_all add: PAGE_SIZE_def)
  then have "execute_values ?w ?b = ?w\<lparr>tweets := ?b, rowcount := int n\<rparr>"
    by (simp add: execute_page_def p connect_def)
  then have fl: "flush ?w = ?w\<lparr>tweets := ?b, rowcount := int n, inserted := int n, batch := []\<rparr>"
    by (simp add: flush_def Let_def connect_def)
  have "batch ?w \<noteq> []"
    using ne by simp
  then have "run_files (sample_env n) [] [''raw1.json'']
      = Inr (?w\<lparr>tweets := ?b, rowcount := int n, inserted := int n, batch := []\<rparr>)"
    unfolding run_files_def paths using fl by simp
  then show ?thesis
    by (simp add: connect_def)
qed

lemma sample_run_two_pages:
  assumes "100 < n" and "n \<le> 200"
  shows "run_files (sample_env n) [] [''raw1.json'']
    = Inr \<lparr>tweets = map sample_row [0..<n], rowcount = int n - 100, batch = [],
        inserted = int n - 100, skipped = 0, read_count = int n\<rparr>"
proof -
  let ?b = "map sample_row [0..<n]"
  let ?w = "(connect [])\<lparr>read_count := int n, batch := ?b\<rparr>"
  have paths: "process_paths (sample_env n) (connect []) [''raw1.json''] = Inr ?w"
    using assms by (intro sample_lines_read) simp
  have pages: "paginate PAGE_SIZE ?b = [take 100 ?b, drop 100 ?b]"
    unfolding PAGE_SIZE_def using assms by (intro paginate_two) simp_all
  have "distinct (map row_key (map sample_row (take 100 [0..<n])))"
    by (rule sample_keys_distinct) simp
  then have d1: "distinct (map row_key ([] @ take 100 ?b))"
    by (simp only: take_map append_Nil)
  have "distinct (map row_key (map sample_row [0..<n]))"
    by (rule sample_keys_distinct) simp
  then have d2: "distinct (map row_key (take 100 ?b @ drop 100 ?b))"
    by (simp only: append_take_drop_id)
  have p1: "insert_do_nothing [] (take 100 ?b) = (take 100 ?b, 100)"
    using insert_do_nothing_fresh [OF d1] assms by simp
  have p2: "insert_do_nothing (take 100 ?b) (drop 100 ?b) = (?b, int n - 100)"
    using insert_do_nothing_fresh [OF d2] assms by (simp add: of_nat_diff)
  have "execute_values ?w ?b = ?w\<lparr>tweets := ?b, rowcount := int n - 100\<rparr>"
    unfolding execute_values_def pages
    by (simp add: execute_page_def p1 p2 connect_def)
  then have fl: "flush ?w
      = ?w\<lparr>tweets := ?b, rowcount := int n - 100, inserted := int n - 100, batch := []\<rparr>"
    by (simp add: flush_def Let_def connect_def)
  have "batch ?w \<noteq> []"
    using assms by simp
  then have "run_files (sample_env n) [] [''raw1.json'']
      = Inr (?w\<lparr>tweets := ?b, rowcount := int n - 100, inserted := int n - 100, batch := []\<rparr>)"
    unfolding run_files_def paths using fl by simp
  then show ?thesis
    by (simp add: connect_def)
qed

text \<open>
  The counters of a worker that returns: \<open>read_count\<close> is the number of non-blank lines
  of the chunk's files, and \<open>inserted\<close> and \<open>skipped\<close> together never exceed it.
\<close>

lemma insert_do_nothing_count:
  "insert_do_nothing tbl page = (tbl', n) \<Longrightarrow> 0 \<le> n \<and> n \<le> int (length page)"
proof (induction page arbitrary: tbl tbl' n)
  case Nil
  then show ?case by simp
next
  case (Cons r rs)
  show ?case
  proof (cases "row_key r \<in> set (map row_key tbl)")
    case True
    with Cons.prems have "insert_do_nothing tbl rs = (tbl', n)" by simp
    from Cons.IH [OF this] show ?thesis by simp
  next
    case False
    obtain t m where tm: "insert_do_nothing (tbl @ [r]) rs = (t, m)"
      by (cases "insert_do_nothing (tbl @ [r]) rs")
    with False Cons.prems have "n = m + 1" by simp
    with Cons.IH [OF tm] show ?thesis by simp
  qed
qed

lemma paginate_pages:
  "p \<in> set (paginate n xs) \<Longrightarrow> length p \<le> length xs"
proof (induction n xs rule: paginate.induct)
  case (1 n xs)
  show ?case
  proof (cases "xs = [] \<or> n = 0")
    case True
    with "1.prems" show ?thesis by (subst (asm) paginate.simps) simp
  next
    case False
    with "1.prems" have "p = take n xs \<or> p \<in> set (paginate n (drop n xs))"
      by (subst (asm) paginate.simps) simp
    then show ?thesis
    proof
      assume "p = take n xs"
      then show ?thesis by simp
    next
      assume "p \<in> set (paginate n (drop n xs))"
      from "1.IH" [OF False this] show ?thesis by simp
    qed
  qed
qed

lemma paginate_nonempty: "xs \<noteq> [] \<Longrightarrow> 0 < n \<Longrightarrow> paginate n xs \<noteq> []"
  by (subst paginate.simps) simp

lemma execute_page_frame:
  "batch (execute_page w p) = batch w" "inserted (execute_page w p) = inserted w"
  "skipped (execute_page w p) = skipped w" "read_count (execute_page w p) = read_count w"
  by (simp_all add: execute_page_def split: prod.splits)

lemma execute_page_rowcount:
  "0 \<le> rowcount (execute_page w p) \<and> rowcount (execute_page w p) \<le> int (length p)"
proof -
  obtain t m where tm: "insert_do_nothing (tweets w) p = (t, m)"
    by (cases "insert_do_nothing (tweets w) p")
  with insert_do_nothing_count [OF tm] show ?thesis
    by (simp add: execute_page_def)
qed

lemma foldl_execute_page_frame:
  "batch (foldl execute_page w ps) = batch w \<and> inserted (foldl execute_page w ps) = inserted w
   \<and> skipped (foldl execute_page w ps) = skipped w
   \<and> read_count (foldl execute_page w ps) = read_count w"
  by (induction ps arbitrary: w) (simp_all add: execute_page_frame)

lemma foldl_execute_page_rowcount:
  assumes "ps \<noteq> []" and "\<forall>p \<in> set ps. length p \<le> m"
  shows "0 \<le> rowcount (foldl execute_page w ps) \<and> rowcount (foldl execute_page w ps) \<le> int m"
  using assms
proof (induction ps rule: rev_induct)
  case Nil
  then show ?case by simp
next
  case (snoc p ps)
  have "length p \<le> m" using snoc.prems(2) by simp
  with execute_page_rowcount [of "foldl execute_page w ps" p] show ?case
    by simp
qed

lemma flush_counts:
  assumes "batch w \<noteq> []" and "counts_ok w"
  shows "counts_ok (flush w) \<and> read_count (flush w) = read_count w \<and> batch (flush w) = []"
proof -
  let ?w' = "execute_values w (batch w)"
  have ps: "paginate PAGE_SIZE (batch w) \<noteq> []"
    using assms(1) by (simp add: paginate_nonempty PAGE_SIZE_def)
  have "\<forall>p \<in> set (paginate PAGE_SIZE (batch w)). length p \<le> length (batch w)"
    by (simp add: paginate_pages)
  from foldl_execute_page_rowcount [OF ps this]
  have rc: "0 \<le> rowcount ?w' \<and> rowcount ?w' \<le> int (length (batch w))"
    by (simp add: execute_values_def)
  have fr: "inserted ?w' = inserted w \<and> skipped ?w' = skipped w \<and> read_count ?w' = read_count w"
    using foldl_execute_page_frame [of w] by (simp add: execute_values_def)
  show ?thesis
    using assms(2) rc fr by (simp add: flush_def Let_def counts_ok_def)
qed

lemma append_row_counts:
  assumes "counts_ok (w\<lparr>read_count := read_count w - 1\<rparr>)"
  shows "counts_ok (append_row E w r) \<and> read_count (append_row E w r) = read_count w"
proof -
  let ?w' = "w\<lparr>batch := batch w @ [r]\<rparr>"
  have ok: "counts_ok ?w'"
    using assms by (simp add: counts_ok_def)
  have ne: "batch ?w' \<noteq> []" by simp
  from flush_counts [OF ne ok] ok show ?thesis
    by (simp add: append_row_def Let_def)
qed

lemma skip_counts:
  assumes "counts_ok (w\<lparr>read_count := read_count w - 1\<rparr>)"
  shows "counts_ok (skip w) \<and> read_count (skip w) = read_count w"
  using assms by (simp add: counts_ok_def skip_def)

lemma process_line_counts:
  assumes "process_line E w l = Inr w'" and "counts_ok w"
  shows "counts_ok w' \<and> read_count w' = read_count w + non_blank [l]"
proof (cases "strip l = []")
  case True
  with assms show ?thesis
    by (simp add: process_line_def non_blank_def)
next
  case False
  let ?w1 = "w\<lparr>read_count := read_count w + 1\<rparr>"
  have ok1: "counts_ok (?w1\<lparr>read_count := read_count ?w1 - 1\<rparr>)"
    using assms(2) by (simp add: counts_ok_def)
  from assms(1) False have "w' = skip ?w1 \<or> (\<exists>r. w' = append_row E ?w1 r)"
    by (auto simp: process_line_def Let_def split: option.splits sum.splits json.splits if_splits)
  then show ?thesis
  proof
    assume "w' = skip ?w1"
    with skip_counts [OF ok1] False show ?thesis
      by (simp add: non_blank_def)
  next
    assume "\<exists>r. w' = append_row E ?w1 r"
    then obtain r where "w' = append_row E ?w1 r" ..
    with append_row_counts [OF ok1, of E r] False show ?thesis
      by (simp add: non_blank_def)
  qed
qed

lemma non_blank_Cons: "non_blank (l # ls) = non_blank [l] + non_blank ls"
  by (simp add: non_blank_def)

lemma non_blank_append: "non_blank (xs @ ys) = non_blank xs + non_blank ys"
  by (simp add: non_blank_def)

lemma process_lines_counts:
  assumes "process_lines E w ls = Inr w'" and "counts_ok w"
  shows "counts_ok w' \<and> read_count w' = read_count w + non_blank ls"
  using assms
proof (induction ls arbitrary: w)
  case Nil
  then show ?case by (simp add: non_blank_def)
next
  case (Cons l ls)
  from Cons.prems(1) obtain w1 where l: "process_line E w l = Inr w1"
    and r: "process_lines E w1 ls = Inr w'"
    by (auto split: sum.splits)
  from process_line_counts [OF l Cons.prems(2)] Cons.IH [OF r]
  show ?case
    by (simp add: non_blank_Cons [of l ls])
qed

lemma process_paths_counts:
  assumes "process_paths E w ps = Inr w'" and "counts_ok w"
  shows "counts_ok w' \<and> read_count w' = read_count w + non_blank (lines_of E ps)"
  using assms
proof (induction ps arbitrary: w)
  case Nil
  then show ?case by (simp add: non_blank_def lines_of_def)
next
  case (Cons p ps)
  show ?case
  proof (cases "files E p")
    case None
    with Cons.prems(1) have "process_paths E w ps = Inr w'" by simp
    from Cons.IH [OF this Cons.prems(2)] None show ?thesis
      by (simp add: lines_of_def)
  next
    case (Some ls)
    with Cons.prems(1) obtain w1 where l: "process_lines E w ls = Inr w1"
      and r: "process_paths E w1 ps = Inr w'"
      by (auto split: sum.splits)
    from process_lines_counts [OF l Cons.prems(2)] Cons.IH [OF r] Some
    show ?thesis
      by (simp add: lines_of_def non_blank_append)
  qed
qed

lemma worker_counts:
  assumes "process_files E tbl file_paths = Inr (i, s, r)"
  shows "0 \<le> i \<and> 0 \<le> s \<and> i + s \<le> r \<and> r = non_blank (lines_of E file_paths)"
proof -
  have ok0: "counts_ok (connect tbl)"
    by (simp add: counts_ok_def connect_def)
  from assms obtain w where p: "process_paths E (connect tbl) file_paths = Inr w"
    and res: "(i, s, r) = (let w' = (if batch w \<noteq> [] then flush w else w)
        in (inserted w', skipped w', read_count w'))"
    by (auto simp: process_files_def run_files_def Let_def split: sum.splits)
  from process_paths_counts [OF p ok0]
  have ok: "counts_ok w" and rd: "read_count w = non_blank (lines_of E file_paths)"
    by (simp_all add: connect_def)
  show ?thesis
  proof (cases "batch w = []")
    case True
    with res ok rd show ?thesis
      by (simp add: counts_ok_def Let_def)
  next
    case False
    from flush_counts [OF False ok] res False rd show ?thesis
      by (simp add: counts_ok_def Let_def)
  qed
qed

section \<open>The claims\<close>

subsection \<open>C1: malformed timestamps\<close>

text \<open>
  C1. A line whose timestamp is present but malformed should be counted as skipped and the
  next line read. The worker does not do so: \<^verbatim>\<open>parse_ts\<close> raises \<^verbatim>\<open>ValueError\<close> outside
  the \<^verbatim>\<open>try\<close> block around \<^verbatim>\<open>json.loads\<close>, so the exception ends \<^verbatim>\<open>process_files\<close> and the
  well-formed second line of the file is never read. This holds for a non-numeric
  \<^verbatim>\<open>timestamp_ms\<close> and for a \<^verbatim>\<open>created_at\<close> outside the format alike. A record with neither
  field gives \<^verbatim>\<open>None\<close> instead, which the worker does skip.
\<close>

theorem malformed_timestamp_aborts:
  "process_files bad_ts_env [] [''raw1.json''] = Inl ValueError
   \<and> process_files bad_ts_env [] [''raw2.json''] = Inl ValueError
   \<and> parse_ts (strptime_of []) (JDict [(''id_str'', JStr ''1'')]) = Inr None"
  by code_simp

subsection \<open>C2: optional fields of an unexpected shape\<close>

text \<open>
  C2. \<^verbatim>\<open>extract_row\<close> should never raise. It does: a \<^verbatim>\<open>user\<close> that is a non-empty string
  or a non-zero number has no \<^verbatim>\<open>get\<close> (\<^verbatim>\<open>AttributeError\<close>), and a \<^verbatim>\<open>source\<close> that is a
  non-zero number cannot be sliced (\<^verbatim>\<open>TypeError\<close>). Only \<^verbatim>\<open>place\<close>, \<^verbatim>\<open>coordinates\<close> and
  \<^verbatim>\<open>entities\<close> are guarded by \<^verbatim>\<open>isinstance\<close>.
\<close>

theorem extract_row_raises:
  "extract_row (JDict [(''user'', JStr ''x'')]) = Inl AttributeError
   \<and> extract_row (JDict [(''user'', JInt 5)]) = Inl AttributeError
   \<and> extract_row (JDict [(''source'', JInt 5)]) = Inl TypeError"
  by code_simp

subsection \<open>C3: the instant \<^verbatim>\<open>parse_ts\<close> extracts\<close>

text \<open>
  C3 (amended). For a record whose \<^verbatim>\<open>timestamp_ms\<close> is present, not null and read by
  \<^verbatim>\<open>int()\<close> as the integer \<open>n\<close>, with \<open>n\<close> at most \<open>8589934592000\<close> in absolute value
  (\<open>2 ^ 33\<close> seconds: the instants from 1697-10-17 to 2242-03-16), \<^verbatim>\<open>parse_ts\<close> returns the
  UTC instant exactly \<open>n / 1000\<close> seconds after the epoch, whatever \<^verbatim>\<open>created_at\<close> holds: the
  double quotient \<^verbatim>\<open>int(ms) / 1000.0\<close> and the rounding of \<^verbatim>\<open>datetime.fromtimestamp\<close> lose
  nothing there. For a record without \<^verbatim>\<open>timestamp_ms\<close> (absent or null) whose \<^verbatim>\<open>created_at\<close>
  is a non-empty string that \<^verbatim>\<open>strptime\<close> parses in the format
  \<^verbatim>\<open>%a %b %d %H:%M:%S %z %Y\<close>, \<^verbatim>\<open>parse_ts\<close> returns the value \<^verbatim>\<open>strptime\<close> gives, unchanged:
  the instant parsed, carrying the offset written in the string and not converted to UTC.
  For a record with neither field (\<^verbatim>\<open>timestamp_ms\<close> absent or null, \<^verbatim>\<open>created_at\<close> absent,
  null or empty), \<^verbatim>\<open>parse_ts\<close> returns \<^verbatim>\<open>None\<close> and does not raise.
\<close>

theorem parse_ts_instant:
  "(map_of d1 ''timestamp_ms'' = Some ms \<and> ms \<noteq> JNull \<and> py_int ms = Inr n
      \<and> \<bar>n\<bar> \<le> 8589934592000
    \<longrightarrow> parse_ts S (JDict d1) = Inr (Some \<lparr>micros = 1000 * n, utcoffset = 0\<rparr>))
   \<and> (dict_get d2 ''timestamp_ms'' = JNull \<and> dict_get d2 ''created_at'' = JStr s \<and> s \<noteq> []
        \<and> S s ''%a %b %d %H:%M:%S %z %Y'' = Inr t
      \<longrightarrow> parse_ts S (JDict d2) = Inr (Some t))
   \<and> (dict_get d3 ''timestamp_ms'' = JNull \<and> \<not> truthy (dict_get d3 ''created_at'')
      \<longrightarrow> parse_ts S (JDict d3) = Inr None)"
proof (intro conjI impI)
  assume a: "map_of d1 ''timestamp_ms'' = Some ms \<and> ms \<noteq> JNull \<and> py_int ms = Inr n
      \<and> \<bar>n\<bar> \<le> 8589934592000"
  then have "obj_get (JDict d1) ''timestamp_ms'' = Inr ms"
    by (simp add: dict_get_def)
  moreover from a have "fromtimestamp_millis n = Inr \<lparr>micros = 1000 * n, utcoffset = 0\<rparr>"
    by (intro fromtimestamp_millis_exact) simp
  ultimately show "parse_ts S (JDict d1) = Inr (Some \<lparr>micros = 1000 * n, utcoffset = 0\<rparr>)"
    using a by (simp add: parse_ts_def)
next
  assume a: "dict_get d2 ''timestamp_ms'' = JNull \<and> dict_get d2 ''created_at'' = JStr s \<and> s \<noteq> []
        \<and> S s ''%a %b %d %H:%M:%S %z %Y'' = Inr t"
  then have "truthy (dict_get d2 ''created_at'')"
    by simp
  with a show "parse_ts S (JDict d2) = Inr (Some t)"
    by (simp add: parse_ts_def CREATED_AT_FORMAT_def)
next
  assume "dict_get d3 ''timestamp_ms'' = JNull \<and> \<not> truthy (dict_get d3 ''created_at'')"
  then show "parse_ts S (JDict d3) = Inr None"
    by (simp add: parse_ts_def)
qed

text \<open>The three cases at concrete records.\<close>

theorem parse_ts_instant_witness:
  "parse_ts (strptime_of [(''Tue Nov 14 22:13:20 +0000 2023'', \<lparr>micros = 1700000000000000, utcoffset = 0\<rparr>)])
      (JDict [(''timestamp_ms'', JStr ''1700000000000''), (''created_at'', JStr ''yesterday'')])
     = Inr (Some \<lparr>micros = 1700000000000000, utcoffset = 0\<rparr>)
   \<and> parse_ts (strptime_of [(''Tue Nov 14 22:13:20 +0000 2023'', \<lparr>micros = 1700000000000000, utcoffset = 0\<rparr>)])
      (JDict [(''created_at'', JStr ''Tue Nov 14 22:13:20 +0000 2023'')])
     = Inr (Some \<lparr>micros = 1700000000000000, utcoffset = 0\<rparr>)
   \<and> parse_ts (strptime_of [(''Tue Nov 14 22:13:20 +0000 2023'', \<lparr>micros = 1700000000000000, utcoffset = 0\<rparr>)])
      (JDict [(''id'', JInt 7)]) = Inr None"
proof -
  let ?S = "strptime_of [(''Tue Nov 14 22:13:20 +0000 2023'', \<lparr>micros = 1700000000000000, utcoffset = 0\<rparr>)]"
  let ?d1 = "[(''timestamp_ms'', JStr ''1700000000000''), (''created_at'', JStr ''yesterday'')]"
  let ?d2 = "[(''created_at'', JStr ''Tue Nov 14 22:13:20 +0000 2023'')]"
  let ?d3 = "[(''id'', JInt 7)]"
  have i: "py_int (JStr ''1700000000000'') = Inr 1700000000000"
    by code_simp
  have h1: "map_of ?d1 ''timestamp_ms'' = Some (JStr ''1700000000000'') \<and> JStr ''1700000000000'' \<noteq> JNull
      \<and> py_int (JStr ''1700000000000'') = Inr 1700000000000
      \<and> \<bar>1700000000000 :: int\<bar> \<le> 8589934592000"
    using i by simp
  have h2: "dict_get ?d2 ''timestamp_ms'' = JNull
      \<and> dict_get ?d2 ''created_at'' = JStr ''Tue Nov 14 22:13:20 +0000 2023''
      \<and> ''Tue Nov 14 22:13:20 +0000 2023'' \<noteq> []
      \<and> ?S ''Tue Nov 14 22:13:20 +0000 2023'' ''%a %b %d %H:%M:%S %z %Y''
          = Inr \<lparr>micros = 1700000000000000, utcoffset = 0\<rparr>"
    by (simp add: dict_get_def strptime_of_def)
  have h3: "dict_get ?d3 ''timestamp_ms'' = JNull \<and> \<not> truthy (dict_get ?d3 ''created_at'')"
    by (simp add: dict_get_def)
  from parse_ts_instant [of ?d1 "JStr ''1700000000000''" 1700000000000 ?S ?d2
      "''Tue Nov 14 22:13:20 +0000 2023''" "\<lparr>micros = 1700000000000000, utcoffset = 0\<rparr>" ?d3] h1 h2 h3
  show ?thesis by simp
qed

text \<open>
  C3 as stated fails in three ways. \<open>253402300800000\<close> is an integer, but it is the first
  millisecond of the year 10000, and \<^verbatim>\<open>datetime.fromtimestamp\<close> raises. \<open>8589934592001\<close> is in
  the year 2242: the double nearest to \<open>8589934592.001\<close> is a little below it, and the instant
  \<^verbatim>\<open>parse_ts\<close> returns is the microsecond \<open>8589934592000999\<close>, one less than
  \<open>8589934592001 / 1000\<close> seconds; this is the first millisecond for which the result is not
  exact. And for a \<^verbatim>\<open>created_at\<close> written with the offset \<^verbatim>\<open>+0100\<close>, for which \<^verbatim>\<open>strptime\<close> gives
  a value one hour east of UTC, \<^verbatim>\<open>parse_ts\<close> returns that value with its offset of 3600
  seconds: the instant is right, but nothing has normalized it to UTC.
\<close>

theorem parse_ts_instant_counterexample:
  "py_int (JInt 253402300800000) = Inr 253402300800000
   \<and> parse_ts (strptime_of []) (JDict [(''timestamp_ms'', JInt 253402300800000)]) = Inl RangeError
   \<and> py_int (JInt 8589934592001) = Inr 8589934592001
   \<and> parse_ts (strptime_of []) (JDict [(''timestamp_ms'', JInt 8589934592001)])
       = Inr (Some \<lparr>micros = 8589934592000999, utcoffset = 0\<rparr>)
   \<and> 8589934592000999 \<noteq> 1000 * (8589934592001 :: int)
   \<and> parse_ts
        (strptime_of [(''Tue Nov 14 23:13:20 +0100 2023'',
           \<lparr>micros = 1700000000000000, utcoffset = 3600000000\<rparr>)])
        (JDict [(''created_at'', JStr ''Tue Nov 14 23:13:20 +0100 2023'')])
       = Inr (Some \<lparr>micros = 1700000000000000, utcoffset = 3600000000\<rparr>)"
  by code_simp

subsection \<open>C4: the chunks and the size of the pool\<close>

text \<open>
  C4. With a positive \<^verbatim>\<open>CHUNK_SIZE\<close> and at least one configured worker, \<^verbatim>\<open>main\<close> cuts a
  non-empty sorted, capped file list into chunks whose concatenation is that list. Every
  chunk is non-empty and no longer than \<^verbatim>\<open>CHUNK_SIZE\<close>, every chunk but the last holds
  exactly \<^verbatim>\<open>CHUNK_SIZE\<close> files, and the pool has as many workers as configured, but no more
  than there are chunks. For 45 files and a \<^verbatim>\<open>CHUNK_SIZE\<close> of 20 the chunk sizes are
  \<open>[20, 20, 5]\<close>, and a configured worker count of 3 or more gives a pool of 3.
\<close>

theorem partition_chunks:
  assumes cs: "0 < CHUNK_SIZE C" and nw: "1 \<le> N_WORKERS C"
    and fs: "discover C globbed = fs" and ne: "fs \<noteq> []"
  shows "\<exists>chunks n. main C globbed = Inr (Some (chunks, n))
     \<and> concat chunks = fs
     \<and> (\<forall>c \<in> set chunks. c \<noteq> [] \<and> int (length c) \<le> CHUNK_SIZE C)
     \<and> (\<forall>c \<in> set (butlast chunks). int (length c) = CHUNK_SIZE C)
     \<and> n = min (N_WORKERS C) (int (length chunks))
     \<and> (length fs = 45 \<and> CHUNK_SIZE C = 20
          \<longrightarrow> map length chunks = [20, 20, 5] \<and> (3 \<le> N_WORKERS C \<longrightarrow> n = 3))"
proof -
  let ?k = "nat (min (CHUNK_SIZE C) (int (length fs)))"
  let ?chunks = "chunks_of ?k fs"
  let ?n = "min (N_WORKERS C) (int (length ?chunks))"
  from ne have len: "0 < length fs" by simp
  with cs have k: "0 < ?k" by simp
  have kle: "int ?k \<le> CHUNK_SIZE C"
    using cs by simp
  have cat: "concat ?chunks = fs"
    by (rule concat_chunks_of [OF k])
  from cat ne have "?chunks \<noteq> []"
    by auto
  then have "1 \<le> int (length ?chunks)"
    by (cases ?chunks) simp_all
  with nw have n1: "\<not> ?n < 1"
    by simp
  have kpos: "0 < min (CHUNK_SIZE C) (int (length fs))"
    using cs len by simp
  then have c0: "min (CHUNK_SIZE C) (int (length fs)) \<noteq> 0"
    and c1: "\<not> min (CHUNK_SIZE C) (int (length fs)) < 0"
    by linarith+
  have pl: "main C globbed = Inr (Some (?chunks, ?n))"
    unfolding main_def fs Let_def using ne n1 c0 c1 by (simp only: if_False)
  have mem: "\<forall>c \<in> set ?chunks. c \<noteq> [] \<and> int (length c) \<le> CHUNK_SIZE C"
  proof
    fix c assume "c \<in> set ?chunks"
    from chunks_of_member [OF k this] cs show "c \<noteq> [] \<and> int (length c) \<le> CHUNK_SIZE C"
      by linarith
  qed
  have bl: "\<forall>c \<in> set (butlast ?chunks). int (length c) = CHUNK_SIZE C"
  proof (cases "CHUNK_SIZE C \<le> int (length fs)")
    case True
    then have keq: "int ?k = CHUNK_SIZE C" using cs by simp
    show ?thesis
    proof
      fix c assume "c \<in> set (butlast ?chunks)"
      from chunks_of_butlast [OF k this] keq show "int (length c) = CHUNK_SIZE C"
        by linarith
    qed
  next
    case False
    then have "?k = length fs" by simp
    then have "length ?chunks = (length fs + length fs - 1) div length fs"
      by (simp add: length_chunks_of)
    also have "\<dots> = 1"
      by (rule div_nat_eqI) (use len in simp_all)
    finally have "butlast ?chunks = []"
      by (cases ?chunks) simp_all
    then show ?thesis by simp
  qed
  have sc: "length fs = 45 \<and> CHUNK_SIZE C = 20
      \<longrightarrow> map length ?chunks = [20, 20, 5] \<and> (3 \<le> N_WORKERS C \<longrightarrow> ?n = 3)"
  proof (intro impI)
    assume a: "length fs = 45 \<and> CHUNK_SIZE C = 20"
    then have k20: "?k = 20" by simp
    from a have m: "map length ?chunks = [20, 20, 5]"
      unfolding k20 by (simp add: chunks_of_45_20)
    then have "length (map length ?chunks) = 3" by simp
    then have l3: "int (length ?chunks) = 3" by simp
    have "3 \<le> N_WORKERS C \<longrightarrow> ?n = 3"
      unfolding l3 by simp
    with m show "map length ?chunks = [20, 20, 5] \<and> (3 \<le> N_WORKERS C \<longrightarrow> ?n = 3)"
      by (rule conjI)
  qed
  show ?thesis
  proof (intro exI conjI)
    show "main C globbed = Inr (Some (?chunks, ?n))" by (rule pl)
    show "concat ?chunks = fs" by (rule cat)
    show "\<forall>c \<in> set ?chunks. c \<noteq> [] \<and> int (length c) \<le> CHUNK_SIZE C" by (rule mem)
    show "\<forall>c \<in> set (butlast ?chunks). int (length c) = CHUNK_SIZE C" by (rule bl)
    show "?n = min (N_WORKERS C) (int (length ?chunks))" by (rule refl)
    show "length fs = 45 \<and> CHUNK_SIZE C = 20
      \<longrightarrow> map length ?chunks = [20, 20, 5] \<and> (3 \<le> N_WORKERS C \<longrightarrow> ?n = 3)" by (rule sc)
  qed
qed


text \<open>45 files found in reverse order next to one side file, 8 workers configured.\<close>

theorem partition_chunks_witness:
  "discover \<lparr>CHUNK_SIZE = 20, N_WORKERS = 8, MAX_FILES = 0\<rparr> sample_glob = map sample_path [10..<55]
   \<and> length (map sample_path [10..<55]) = 45
   \<and> (\<exists>chunks. main \<lparr>CHUNK_SIZE = 20, N_WORKERS = 8, MAX_FILES = 0\<rparr> sample_glob = Inr (Some (chunks, 3))
        \<and> concat chunks = map sample_path [10..<55]
        \<and> map length chunks = [20, 20, 5])"
proof -
  let ?C = "\<lparr>CHUNK_SIZE = 20, N_WORKERS = 8, MAX_FILES = 0\<rparr>"
  let ?fs = "map sample_path [10..<55]"
  have d: "discover ?C sample_glob = ?fs"
    by code_simp
  have l: "length ?fs = 45"
    by simp
  have ne: "?fs \<noteq> []"
    using l by auto
  have c: "0 < CHUNK_SIZE ?C" "1 \<le> N_WORKERS ?C" "CHUNK_SIZE ?C = 20" "3 \<le> N_WORKERS ?C"
    by simp_all
  from partition_chunks [OF c(1) c(2) d ne] obtain chunks where
    "\<exists>n. main ?C sample_glob = Inr (Some (chunks, n))
     \<and> concat chunks = ?fs
     \<and> (\<forall>c \<in> set chunks. c \<noteq> [] \<and> int (length c) \<le> CHUNK_SIZE ?C)
     \<and> (\<forall>c \<in> set (butlast chunks). int (length c) = CHUNK_SIZE ?C)
     \<and> n = min (N_WORKERS ?C) (int (length chunks))
     \<and> (length ?fs = 45 \<and> CHUNK_SIZE ?C = 20
          \<longrightarrow> map length chunks = [20, 20, 5] \<and> (3 \<le> N_WORKERS ?C \<longrightarrow> n = 3))" ..
  then obtain n where
    p: "main ?C sample_glob = Inr (Some (chunks, n))" and cat: "concat chunks = ?fs"
    and sc: "length ?fs = 45 \<and> CHUNK_SIZE ?C = 20
          \<longrightarrow> map length chunks = [20, 20, 5] \<and> (3 \<le> N_WORKERS ?C \<longrightarrow> n = 3)"
    by (elim exE conjE)
  from l c(3) have "length ?fs = 45 \<and> CHUNK_SIZE ?C = 20"
    by (rule conjI)
  with sc have r: "map length chunks = [20, 20, 5] \<and> (3 \<le> N_WORKERS ?C \<longrightarrow> n = 3)"
    by (rule mp)
  then have m: "map length chunks = [20, 20, 5]"
    by (rule conjunct1)
  from r have "3 \<le> N_WORKERS ?C \<longrightarrow> n = 3"
    by (rule conjunct2)
  then have n3: "n = 3"
    using c(4) by (rule mp)
  from p have p3: "main ?C sample_glob = Inr (Some (chunks, 3))"
    unfolding n3 .
  from p3 cat m have "main ?C sample_glob = Inr (Some (chunks, 3))
        \<and> concat chunks = ?fs \<and> map length chunks = [20, 20, 5]"
    by (intro conjI)
  then have "\<exists>chunks. main ?C sample_glob = Inr (Some (chunks, 3))
        \<and> concat chunks = ?fs \<and> map length chunks = [20, 20, 5]"
    by (rule exI)
  with d l show ?thesis
    by (intro conjI)
qed

subsection \<open>C5: the JSONB columns\<close>

text \<open>
  C5 (amended). In a projected row the \<^verbatim>\<open>coordinates\<close> column is non-null exactly when the
  raw \<^verbatim>\<open>coordinates\<close> value is a non-empty key-value mapping, and then it holds that
  mapping; likewise \<^verbatim>\<open>entities\<close>. A list, like every other value that is not a mapping, an
  absent value and the empty mapping give null.
\<close>

theorem extract_row_nested:
  "(extract_row (JDict d1) = Inr c1 \<longrightarrow>
       (coordinates c1 \<noteq> None \<longleftrightarrow> (\<exists>kvs. dict_get d1 ''coordinates'' = JDict kvs \<and> kvs \<noteq> []))
     \<and> (coordinates c1 = None \<or> coordinates c1 = Some (dict_get d1 ''coordinates''))
     \<and> (entities c1 \<noteq> None \<longleftrightarrow> (\<exists>kvs. dict_get d1 ''entities'' = JDict kvs \<and> kvs \<noteq> []))
     \<and> (entities c1 = None \<or> entities c1 = Some (dict_get d1 ''entities'')))
   \<and> (extract_row (JDict d2) = Inr c2 \<and> dict_get d2 ''coordinates'' = JList xs
      \<longrightarrow> coordinates c2 = None)"
proof (intro conjI impI)
  assume r: "extract_row (JDict d1) = Inr c1"
  have co: "coordinates c1 = json_if_dict (dict_get d1 ''coordinates'')"
    and en: "entities c1 = json_if_dict (dict_get d1 ''entities'')"
    using extract_row_Inr [OF r] by simp_all
  show "coordinates c1 \<noteq> None \<longleftrightarrow> (\<exists>kvs. dict_get d1 ''coordinates'' = JDict kvs \<and> kvs \<noteq> [])"
    unfolding co by (rule json_if_dict_Some)
  show "coordinates c1 = None \<or> coordinates c1 = Some (dict_get d1 ''coordinates'')"
    unfolding co by (rule json_if_dict_cases)
  show "entities c1 \<noteq> None \<longleftrightarrow> (\<exists>kvs. dict_get d1 ''entities'' = JDict kvs \<and> kvs \<noteq> [])"
    unfolding en by (rule json_if_dict_Some)
  show "entities c1 = None \<or> entities c1 = Some (dict_get d1 ''entities'')"
    unfolding en by (rule json_if_dict_cases)
next
  assume a: "extract_row (JDict d2) = Inr c2 \<and> dict_get d2 ''coordinates'' = JList xs"
  then have "coordinates c2 = json_if_dict (JList xs)"
    using extract_row_Inr [of d2 c2] by simp
  then show "coordinates c2 = None"
    by (simp add: json_if_dict_list)
qed

text \<open>A record with a mapping as \<^verbatim>\<open>coordinates\<close> and a number as \<^verbatim>\<open>entities\<close>, and one with
  a list as \<^verbatim>\<open>coordinates\<close>.\<close>

theorem extract_row_nested_witness:
  "extract_row (JDict [(''coordinates'', JDict [(''type'', JStr ''Point'')]), (''entities'', JInt 3)])
     = Inr \<lparr>lang = JStr ''und'', source = JStr [], screen_name = JNull, place = JNull,
          quote_count = JNull, favorited = JNull,
          coordinates = Some (JDict [(''type'', JStr ''Point'')]), entities = None,
          friends_count = JNull, user_id = JNull\<rparr>
   \<and> extract_row (JDict [(''coordinates'', JList [JInt 2, JInt 48])])
     = Inr \<lparr>lang = JStr ''und'', source = JStr [], screen_name = JNull, place = JNull,
          quote_count = JNull, favorited = JNull, coordinates = None, entities = None,
          friends_count = JNull, user_id = JNull\<rparr>"
proof -
  let ?d1 = "[(''coordinates'', JDict [(''type'', JStr ''Point'')]), (''entities'', JInt 3)]"
  let ?c1 = "\<lparr>lang = JStr ''und'', source = JStr [], screen_name = JNull, place = JNull,
          quote_count = JNull, favorited = JNull,
          coordinates = Some (JDict [(''type'', JStr ''Point'')]), entities = None,
          friends_count = JNull, user_id = JNull\<rparr>"
  let ?d2 = "[(''coordinates'', JList [JInt 2, JInt 48])]"
  let ?c2 = "\<lparr>lang = JStr ''und'', source = JStr [], screen_name = JNull, place = JNull,
          quote_count = JNull, favorited = JNull, coordinates = None, entities = None,
          friends_count = JNull, user_id = JNull\<rparr>"
  have h1: "extract_row (JDict ?d1) = Inr ?c1"
    by (simp add: extract_row.simps dict_get_def py_or_def json_if_dict_def)
  have h2: "extract_row (JDict ?d2) = Inr ?c2 \<and> dict_get ?d2 ''coordinates'' = JList [JInt 2, JInt 48]"
    by (simp add: extract_row.simps dict_get_def py_or_def json_if_dict_def)
  from extract_row_nested [of ?d1 ?c1 ?d2 ?c2 "[JInt 2, JInt 48]"] h1 h2 show ?thesis
    by simp
qed

text \<open>
  C5 as stated fails for the empty mapping: \<^verbatim>\<open>{}\<close> is present and is a key-value mapping,
  but it is falsy, and both columns are null.
\<close>

theorem empty_mapping_counterexample:
  "is_dict (JDict [])
   \<and> extract_row (JDict [(''coordinates'', JDict []), (''entities'', JDict [])])
     = Inr \<lparr>lang = JStr ''und'', source = JStr [], screen_name = JNull, place = JNull,
          quote_count = JNull, favorited = JNull, coordinates = None, entities = None,
          friends_count = JNull, user_id = JNull\<rparr>"
  by (simp add: extract_row.simps dict_get_def py_or_def json_if_dict_def)

subsection \<open>C6: the source column\<close>

text \<open>
  C6. When \<^verbatim>\<open>extract_row\<close> projects a record whose \<^verbatim>\<open>source\<close> is a string of more than 100
  characters, the source column is the string of its first 100 characters; a \<^verbatim>\<open>source\<close>
  string of at most 100 characters is stored unchanged. Cutting a string never raises.
\<close>

theorem extract_row_source:
  "(dict_get d1 ''source'' = JStr s1 \<and> extract_row (JDict d1) = Inr c1 \<and> 100 < length s1
      \<longrightarrow> source c1 = JStr (take 100 s1) \<and> length (take 100 s1) = 100)
   \<and> (dict_get d2 ''source'' = JStr s2 \<and> extract_row (JDict d2) = Inr c2 \<and> length s2 \<le> 100
      \<longrightarrow> source c2 = JStr s2)
   \<and> slice100 (py_or (JStr s3) (JStr [])) = Inr (JStr (take 100 s3))"
proof -
  have sl: "slice100 (py_or (JStr s) (JStr [])) = Inr (JStr (take 100 s))" for s
    by (cases "s = []") (simp_all add: py_or_def)
  have src: "source c = JStr (take 100 s)"
    if "dict_get d ''source'' = JStr s" and "extract_row (JDict d) = Inr c" for d s c
  proof -
    have "slice100 (py_or (JStr s) (JStr [])) = Inr (source c)"
      using extract_row_Inr [OF that(2)] that(1) by simp
    then show ?thesis
      by (simp add: sl)
  qed
  show ?thesis
    using src [of d1 s1 c1] src [of d2 s2 c2] sl [of s3] by simp
qed

text \<open>A source of 150 characters and the source \<^verbatim>\<open>web\<close>.\<close>

theorem extract_row_source_witness:
  "extract_row (JDict [(''source'', JStr (replicate 150 (CHR ''a'')))])
     = Inr \<lparr>lang = JStr ''und'', source = JStr (replicate 100 (CHR ''a'')), screen_name = JNull,
          place = JNull, quote_count = JNull, favorited = JNull, coordinates = None,
          entities = None, friends_count = JNull, user_id = JNull\<rparr>
   \<and> extract_row (JDict [(''source'', JStr ''web'')])
     = Inr \<lparr>lang = JStr ''und'', source = JStr ''web'', screen_name = JNull,
          place = JNull, quote_count = JNull, favorited = JNull, coordinates = None,
          entities = None, friends_count = JNull, user_id = JNull\<rparr>"
proof -
  let ?d1 = "[(''source'', JStr (replicate 150 (CHR ''a'')))]"
  let ?c1 = "\<lparr>lang = JStr ''und'', source = JStr (replicate 100 (CHR ''a'')), screen_name = JNull,
          place = JNull, quote_count = JNull, favorited = JNull, coordinates = None,
          entities = None, friends_count = JNull, user_id = JNull\<rparr>"
  let ?d2 = "[(''source'', JStr ''web'')]"
  let ?c2 = "\<lparr>lang = JStr ''und'', source = JStr ''web'', screen_name = JNull,
          place = JNull, quote_count = JNull, favorited = JNull, coordinates = None,
          entities = None, friends_count = JNull, user_id = JNull\<rparr>"
  have h1: "dict_get ?d1 ''source'' = JStr (replicate 150 (CHR ''a''))
      \<and> extract_row (JDict ?d1) = Inr ?c1 \<and> 100 < length (replicate 150 (CHR ''a''))"
    by (simp add: extract_row.simps dict_get_def py_or_def json_if_dict_def)
  have h2: "dict_get ?d2 ''source'' = JStr ''web''
      \<and> extract_row (JDict ?d2) = Inr ?c2 \<and> length ''web'' \<le> 100"
    by (simp add: extract_row.simps dict_get_def py_or_def json_if_dict_def)
  from extract_row_source [of ?d1 "replicate 150 (CHR ''a'')" ?c1 ?d2 "''web''" ?c2] h1 h2
  show ?thesis
    by simp
qed

subsection \<open>C7: the identifier\<close>

text \<open>
  C7. The identifier is \<^verbatim>\<open>id_str\<close> when that is truthy, and otherwise \<^verbatim>\<open>str()\<close> of \<^verbatim>\<open>id\<close>
  (of the empty string when \<^verbatim>\<open>id\<close> is absent); for \<^verbatim>\<open>{"id": 7}\<close> that is \<^verbatim>\<open>"7"\<close>. A decoded
  record on which \<^verbatim>\<open>parse_ts\<close> returns and whose identifier comes out empty is skipped: the
  read and the skipped counter go up by one, the batch and the table stay as they are. The line
  \<^verbatim>\<open>{"id": 7}\<close>, alone in a file, has no timestamp: the worker ends with 1 line read, 1
  skipped, nothing inserted and the table as it was.
\<close>

theorem identifier_resolution:
  "(truthy (dict_get d1 ''id_str'') \<longrightarrow> resolve_id d1 = dict_get d1 ''id_str'')
   \<and> (\<not> truthy (dict_get d2 ''id_str'')
        \<longrightarrow> resolve_id d2 = JStr (py_str (dict_get_default d2 ''id'' (JStr []))))
   \<and> resolve_id [(''id'', JInt 7)] = JStr ''7''
   \<and> (strip raw \<noteq> [] \<and> json_loads E (strip raw) = Some (JDict d3)
        \<and> parse_ts (strptime E) (JDict d3) = Inr r \<and> \<not> truthy (resolve_id d3)
        \<longrightarrow> process_line E w raw
            = Inr (w\<lparr>read_count := read_count w + 1, skipped := skipped w + 1\<rparr>))
   \<and> (json_loads E' ''{\"id\": 7}'' = Some (JDict [(''id'', JInt 7)])
        \<and> files E' p = Some [''{\"id\": 7}\<newline>'']
        \<longrightarrow> run_files E' tbl [p] = Inr ((connect tbl)\<lparr>read_count := 1, skipped := 1\<rparr>)
            \<and> process_files E' tbl [p] = Inr (0, 1, 1))"
proof (intro conjI impI)
  assume "truthy (dict_get d1 ''id_str'')"
  then show "resolve_id d1 = dict_get d1 ''id_str''"
    by (simp add: resolve_id_def py_or_def)
next
  assume "\<not> truthy (dict_get d2 ''id_str'')"
  then show "resolve_id d2 = JStr (py_str (dict_get_default d2 ''id'' (JStr [])))"
    by (simp add: resolve_id_def py_or_def)
next
  show "resolve_id [(''id'', JInt 7)] = JStr ''7''"
    by (rule resolve_id_7)
next
  assume "strip raw \<noteq> [] \<and> json_loads E (strip raw) = Some (JDict d3)
        \<and> parse_ts (strptime E) (JDict d3) = Inr r \<and> \<not> truthy (resolve_id d3)"
  then show "process_line E w raw
      = Inr (w\<lparr>read_count := read_count w + 1, skipped := skipped w + 1\<rparr>)"
    by (intro process_line_skip_id [where d = d3 and r = r]) simp_all
next
  assume a: "json_loads E' ''{\"id\": 7}'' = Some (JDict [(''id'', JInt 7)])
        \<and> files E' p = Some [''{\"id\": 7}\<newline>'']"
  have ts: "parse_ts (strptime E') (JDict [(''id'', JInt 7)]) = Inr None"
    by (simp add: parse_ts_def dict_get_def)
  have line: "process_line E' (connect tbl) ''{\"id\": 7}\<newline>''
      = Inr ((connect tbl)\<lparr>read_count := read_count (connect tbl) + 1,
          skipped := skipped (connect tbl) + 1\<rparr>)"
    using a by (intro process_line_skip_ts [OF _ _ ts]) (simp_all add: strip_line_7)
  then show run: "run_files E' tbl [p] = Inr ((connect tbl)\<lparr>read_count := 1, skipped := 1\<rparr>)"
    using a by (simp add: run_files_def connect_def)
  show "process_files E' tbl [p] = Inr (0, 1, 1)"
    using run by (simp add: process_files_def connect_def)
qed


text \<open>A record with both identifiers, one with an empty \<^verbatim>\<open>id_str\<close>, a line with a timestamp
  and no identifier, and the file of the scenario.\<close>

theorem identifier_resolution_witness:
  "resolve_id [(''id_str'', JStr ''42''), (''id'', JInt 7)] = JStr ''42''
   \<and> resolve_id [(''id_str'', JStr []), (''id'', JInt 7)] = JStr ''7''
   \<and> process_line id_env (connect []) ''{\"timestamp_ms\": 1700000000000}\<newline>''
       = Inr ((connect [])\<lparr>read_count := 1, skipped := 1\<rparr>)
   \<and> run_files id_env [] [''raw1.json''] = Inr ((connect [])\<lparr>read_count := 1, skipped := 1\<rparr>)
   \<and> process_files id_env [] [''raw1.json''] = Inr (0, 1, 1)"
proof -
  let ?d1 = "[(''id_str'', JStr ''42''), (''id'', JInt 7)]"
  let ?d2 = "[(''id_str'', JStr []), (''id'', JInt 7)]"
  let ?d3 = "[(''timestamp_ms'', JInt 1700000000000)]"
  let ?raw = "''{\"timestamp_ms\": 1700000000000}\<newline>''"
  let ?t = "\<lparr>micros = 1700000000000000, utcoffset = 0\<rparr>"
  have h1: "truthy (dict_get ?d1 ''id_str'')"
    by (simp add: dict_get_def)
  have h2: "\<not> truthy (dict_get ?d2 ''id_str'')"
    by (simp add: dict_get_def)
  have s: "strip ?raw = ''{\"timestamp_ms\": 1700000000000}''"
    by code_simp
  have h3: "strip ?raw \<noteq> [] \<and> json_loads id_env (strip ?raw) = Some (JDict ?d3)
        \<and> parse_ts (strptime id_env) (JDict ?d3) = Inr (Some ?t) \<and> \<not> truthy (resolve_id ?d3)"
    unfolding s
    by (simp add: id_env_def parse_ts_def dict_get_def dict_get_default_def fromtimestamp_millis_2023 resolve_id_def py_or_def)
  have h4: "json_loads id_env ''{\"id\": 7}'' = Some (JDict [(''id'', JInt 7)])
        \<and> files id_env ''raw1.json'' = Some [''{\"id\": 7}\<newline>'']"
    by (simp add: id_env_def)
  have v: "py_str (dict_get_default ?d2 ''id'' (JStr [])) = ''7''"
    by code_simp
  from identifier_resolution [where ?d1.0 = ?d1 and ?d2.0 = ?d2 and raw = ?raw and E = id_env
      and ?d3.0 = ?d3 and r = "Some ?t" and w = "connect []" and E' = id_env and p = "''raw1.json''"
      and tbl = "[]"] h1 h2 h3 h4 v
  show ?thesis
    by (simp add: dict_get_def connect_def)
qed

subsection \<open>C8: a string-typed \<^verbatim>\<open>timestamp_ms\<close>\<close>

text \<open>
  C8. The line \<^verbatim>\<open>{"timestamp_ms": "1700000000000", "id_str": "42", "lang": "en"}\<close>, alone in
  a file and read into an empty table, is not skipped: whatever the batch size, the worker
  ends with exactly one stored row, whose instant is 1700000000 s after the epoch
  (2023-11-14T22:13:20 UTC), with identifier \<^verbatim>\<open>"42"\<close>, language \<^verbatim>\<open>"en"\<close>, the empty string as
  source and every other column null, and it returns \<open>(1, 0, 1)\<close>.
\<close>

theorem scenario_string_timestamp:
  assumes loads: "json_loads E ''{\"timestamp_ms\": \"1700000000000\", \"id_str\": \"42\", \"lang\": \"en\"}''
      = Some (JDict [(''timestamp_ms'', JStr ''1700000000000''), (''id_str'', JStr ''42''), (''lang'', JStr ''en'')])"
    and fl: "files E p = Some [''{\"timestamp_ms\": \"1700000000000\", \"id_str\": \"42\", \"lang\": \"en\"}\<newline>'']"
  shows "run_files E [] [p] =
      Inr \<lparr>tweets = [\<lparr>ts = \<lparr>micros = 1700000000000000, utcoffset = 0\<rparr>, id_str = JStr ''42'',
                rest = \<lparr>lang = JStr ''en'', source = JStr [], screen_name = JNull, place = JNull,
                  quote_count = JNull, favorited = JNull, coordinates = None, entities = None,
                  friends_count = JNull, user_id = JNull\<rparr>\<rparr>],
            rowcount = 1, batch = [], inserted = 1, skipped = 0, read_count = 1\<rparr>
    \<and> process_files E [] [p] = Inr (1, 0, 1)
    \<and> utc_fields \<lparr>micros = 1700000000000000, utcoffset = 0\<rparr> = (2023, 11, 14, 22, 13, 20, 0)"
proof -
  let ?d = "[(''timestamp_ms'', JStr ''1700000000000''), (''id_str'', JStr ''42''), (''lang'', JStr ''en'')]"
  let ?raw = "''{\"timestamp_ms\": \"1700000000000\", \"id_str\": \"42\", \"lang\": \"en\"}\<newline>''"
  have ne: "strip ?raw \<noteq> []"
    unfolding strip_line_42 by simp
  have lo: "json_loads E (strip ?raw) = Some (JDict ?d)"
    unfolding strip_line_42 by (rule loads)
  have id: "resolve_id ?d = JStr ''42''"
    by (simp add: resolve_id_def dict_get_def py_or_def)
  then have tr: "truthy (resolve_id ?d)"
    by simp
  have line: "process_line E (connect []) ?raw
      = Inr (append_row E ((connect [])\<lparr>read_count := read_count (connect []) + 1\<rparr>)
          \<lparr>ts = \<lparr>micros = 1700000000000000, utcoffset = 0\<rparr>, id_str = JStr ''42'',
            rest = \<lparr>lang = JStr ''en'', source = JStr [], screen_name = JNull, place = JNull,
              quote_count = JNull, favorited = JNull, coordinates = None, entities = None,
              friends_count = JNull, user_id = JNull\<rparr>\<rparr>)"
    using process_line_row [OF ne lo parse_ts_42 tr extract_row_42, of "connect []"]
    by (simp only: id)
  note run = run_single_row [OF fl line]
  have f: "utc_fields \<lparr>micros = 1700000000000000, utcoffset = 0\<rparr> = (2023, 11, 14, 22, 13, 20, 0)"
    by code_simp
  show ?thesis using run f by (simp add: process_files_def)
qed

text \<open>The scenario with a decoder that knows this one line, and the default batch size.\<close>

theorem scenario_string_timestamp_witness:
  "run_files
     \<lparr>json_loads = map_of [(''{\"timestamp_ms\": \"1700000000000\", \"id_str\": \"42\", \"lang\": \"en\"}'',
        JDict [(''timestamp_ms'', JStr ''1700000000000''), (''id_str'', JStr ''42''), (''lang'', JStr ''en'')])],
      strptime = strptime_of [],
      BATCH_SIZE = 10000,
      files = map_of [(''raw1.json'',
        [''{\"timestamp_ms\": \"1700000000000\", \"id_str\": \"42\", \"lang\": \"en\"}\<newline>''])]\<rparr>
     [] [''raw1.json'']
   = Inr \<lparr>tweets = [\<lparr>ts = \<lparr>micros = 1700000000000000, utcoffset = 0\<rparr>, id_str = JStr ''42'',
                rest = \<lparr>lang = JStr ''en'', source = JStr [], screen_name = JNull, place = JNull,
                  quote_count = JNull, favorited = JNull, coordinates = None, entities = None,
                  friends_count = JNull, user_id = JNull\<rparr>\<rparr>],
            rowcount = 1, batch = [], inserted = 1, skipped = 0, read_count = 1\<rparr>"
  using scenario_string_timestamp [of
     "\<lparr>json_loads = map_of [(''{\"timestamp_ms\": \"1700000000000\", \"id_str\": \"42\", \"lang\": \"en\"}'',
        JDict [(''timestamp_ms'', JStr ''1700000000000''), (''id_str'', JStr ''42''), (''lang'', JStr ''en'')])],
      strptime = strptime_of [],
      BATCH_SIZE = 10000,
      files = map_of [(''raw1.json'',
        [''{\"timestamp_ms\": \"1700000000000\", \"id_str\": \"42\", \"lang\": \"en\"}\<newline>''])]\<rparr>"
     "''raw1.json''"]
  by simp

subsection \<open>C9: the counters of a worker\<close>

text \<open>
  C9. The counts a worker returns should add up: inserted plus skipped equals read when no
  key occurs twice. For a file of 100 well-formed lines with 100 different keys, read
  into an empty table with the default batch size, they do: the worker returns
  \<open>(100, 0, 100)\<close>. A file of 101 such lines is flushed once, in two statements of 100
  rows and of 1 row. All 101 rows are stored, and the worker returns 1 as inserted, 0 as
  skipped and 101 as read: \<^verbatim>\<open>cur.rowcount\<close> only knows the last statement.
\<close>

theorem paging_loses_counts:
  "process_files (sample_env 100) [] [''raw1.json''] = Inr (100, 0, 100)
   \<and> run_files (sample_env 101) [] [''raw1.json'']
     = Inr \<lparr>tweets = map sample_row [0..<101], rowcount = 1, batch = [],
         inserted = 1, skipped = 0, read_count = 101\<rparr>
   \<and> process_files (sample_env 101) [] [''raw1.json''] = Inr (1, 0, 101)
   \<and> distinct (map row_key (map sample_row [0..<101]))"
proof -
  have a: "run_files (sample_env 100) [] [''raw1.json'']
      = Inr \<lparr>tweets = map sample_row [0..<100], rowcount = int 100, batch = [],
        inserted = int 100, skipped = 0, read_count = int 100\<rparr>"
    by (rule sample_run_one_page) simp_all
  have b: "run_files (sample_env 101) [] [''raw1.json'']
      = Inr \<lparr>tweets = map sample_row [0..<101], rowcount = int 101 - 100, batch = [],
        inserted = int 101 - 100, skipped = 0, read_count = int 101\<rparr>"
    by (rule sample_run_two_pages) simp_all
  have c: "distinct (map row_key (map sample_row [0..<101]))"
    by (rule sample_keys_distinct) simp
  from a b c show ?thesis
    by (simp add: process_files_def)
qed

subsection \<open>C10: a \<^verbatim>\<open>null\<close> identifier\<close>

text \<open>
  C10. For a record without \<^verbatim>\<open>id_str\<close> whose \<^verbatim>\<open>id\<close> is \<^verbatim>\<open>null\<close>, the identifier is the
  string \<^verbatim>\<open>"None"\<close>. Such a record with a resolvable timestamp is never skipped:
  \<^verbatim>\<open>process_line\<close> appends its row, with \<^verbatim>\<open>"None"\<close> as identifier, to the batch (unless
  \<^verbatim>\<open>extract_row\<close> raises), and alone in a file read into an empty table the row is stored
  and counted as inserted. Without \<^verbatim>\<open>id_str\<close>, the identifier is empty, and the record
  skipped, only when \<^verbatim>\<open>id\<close> is absent or the empty string.
\<close>

theorem null_identifier:
  "(map_of d ''id_str'' = None \<and> map_of d ''id'' = Some JNull \<longrightarrow> resolve_id d = JStr ''None'')
   \<and> (map_of d ''id_str'' = None \<and> map_of d ''id'' = Some JNull \<and> strip raw \<noteq> []
        \<and> json_loads E (strip raw) = Some (JDict d)
        \<and> parse_ts (strptime E) (JDict d) = Inr (Some t)
      \<longrightarrow> process_line E w raw
          = (case extract_row (JDict d) of
               Inl e \<Rightarrow> Inl e
             | Inr c \<Rightarrow> Inr (append_row E (w\<lparr>read_count := read_count w + 1\<rparr>)
                         \<lparr>ts = t, id_str = JStr ''None'', rest = c\<rparr>)))
   \<and> (map_of d ''id_str'' = None \<and> map_of d ''id'' = Some JNull \<and> strip raw \<noteq> []
        \<and> json_loads E (strip raw) = Some (JDict d)
        \<and> parse_ts (strptime E) (JDict d) = Inr (Some t)
        \<and> extract_row (JDict d) = Inr c \<and> files E p = Some [raw]
      \<longrightarrow> run_files E [] [p]
          = Inr \<lparr>tweets = [\<lparr>ts = t, id_str = JStr ''None'', rest = c\<rparr>], rowcount = 1, batch = [],
                inserted = 1, skipped = 0, read_count = 1\<rparr>)
   \<and> (map_of d' ''id_str'' = None
      \<longrightarrow> (\<not> truthy (resolve_id d') \<longleftrightarrow> map_of d' ''id'' = None \<or> map_of d' ''id'' = Some (JStr [])))"
proof (intro conjI impI)
  assume "map_of d ''id_str'' = None \<and> map_of d ''id'' = Some JNull"
  then show "resolve_id d = JStr ''None''"
    by (simp add: resolve_id_null)
next
  assume a: "map_of d ''id_str'' = None \<and> map_of d ''id'' = Some JNull \<and> strip raw \<noteq> []
        \<and> json_loads E (strip raw) = Some (JDict d)
        \<and> parse_ts (strptime E) (JDict d) = Inr (Some t)"
  then have id: "resolve_id d = JStr ''None''"
    by (simp add: resolve_id_null)
  then have tr: "truthy (resolve_id d)"
    by simp
  show "process_line E w raw
          = (case extract_row (JDict d) of
               Inl e \<Rightarrow> Inl e
             | Inr c \<Rightarrow> Inr (append_row E (w\<lparr>read_count := read_count w + 1\<rparr>)
                         \<lparr>ts = t, id_str = JStr ''None'', rest = c\<rparr>))"
  proof (cases "extract_row (JDict d)")
    case (Inl e)
    with a tr show ?thesis
      by (simp add: process_line_raise [where d = d and t = t and e = e])
  next
    case (Inr c)
    with a tr id show ?thesis
      by (simp add: process_line_row [where d = d and t = t and c = c])
  qed
next
  assume a: "map_of d ''id_str'' = None \<and> map_of d ''id'' = Some JNull \<and> strip raw \<noteq> []
        \<and> json_loads E (strip raw) = Some (JDict d)
        \<and> parse_ts (strptime E) (JDict d) = Inr (Some t)
        \<and> extract_row (JDict d) = Inr c \<and> files E p = Some [raw]"
  then have id: "resolve_id d = JStr ''None''"
    by (simp add: resolve_id_null)
  then have tr: "truthy (resolve_id d)"
    by simp
  have "process_line E (connect []) raw
      = Inr (append_row E ((connect [])\<lparr>read_count := read_count (connect []) + 1\<rparr>)
          \<lparr>ts = t, id_str = resolve_id d, rest = c\<rparr>)"
    using a tr by (intro process_line_row) simp_all
  then have line: "process_line E (connect []) raw
      = Inr (append_row E ((connect [])\<lparr>read_count := read_count (connect []) + 1\<rparr>)
          \<lparr>ts = t, id_str = JStr ''None'', rest = c\<rparr>)"
    by (simp only: id)
  from a have fl: "files E p = Some [raw]" by simp
  show "run_files E [] [p]
          = Inr \<lparr>tweets = [\<lparr>ts = t, id_str = JStr ''None'', rest = c\<rparr>], rowcount = 1, batch = [],
                inserted = 1, skipped = 0, read_count = 1\<rparr>"
    by (rule run_single_row [OF fl line])
next
  assume "map_of d' ''id_str'' = None"
  then show "\<not> truthy (resolve_id d') \<longleftrightarrow> map_of d' ''id'' = None \<or> map_of d' ''id'' = Some (JStr [])"
    by (rule resolve_id_falsy)
qed

text \<open>The line \<^verbatim>\<open>{"timestamp_ms": 1700000000000, "id": null}\<close>, and a record with no
  identifier at all.\<close>

theorem null_identifier_witness:
  "resolve_id [(''timestamp_ms'', JInt 1700000000000), (''id'', JNull)] = JStr ''None''
   \<and> run_files id_env [] [''raw2.json'']
       = Inr \<lparr>tweets = [\<lparr>ts = \<lparr>micros = 1700000000000000, utcoffset = 0\<rparr>, id_str = JStr ''None'',
                rest = \<lparr>lang = JStr ''und'', source = JStr [], screen_name = JNull, place = JNull,
                  quote_count = JNull, favorited = JNull, coordinates = None, entities = None,
                  friends_count = JNull, user_id = JNull\<rparr>\<rparr>],
              rowcount = 1, batch = [], inserted = 1, skipped = 0, read_count = 1\<rparr>
   \<and> \<not> truthy (resolve_id [(''timestamp_ms'', JInt 1700000000000)])"
proof -
  let ?d = "[(''timestamp_ms'', JInt 1700000000000), (''id'', JNull)]"
  let ?d' = "[(''timestamp_ms'', JInt 1700000000000)]"
  let ?raw = "''{\"timestamp_ms\": 1700000000000, \"id\": null}\<newline>''"
  let ?t = "\<lparr>micros = 1700000000000000, utcoffset = 0\<rparr>"
  let ?c = "\<lparr>lang = JStr ''und'', source = JStr [], screen_name = JNull, place = JNull,
                  quote_count = JNull, favorited = JNull, coordinates = None, entities = None,
                  friends_count = JNull, user_id = JNull\<rparr>"
  have s: "strip ?raw = ''{\"timestamp_ms\": 1700000000000, \"id\": null}''"
    by code_simp
  have h: "map_of ?d ''id_str'' = None \<and> map_of ?d ''id'' = Some JNull \<and> strip ?raw \<noteq> []
        \<and> json_loads id_env (strip ?raw) = Some (JDict ?d)
        \<and> parse_ts (strptime id_env) (JDict ?d) = Inr (Some ?t)
        \<and> extract_row (JDict ?d) = Inr ?c \<and> files id_env ''raw2.json'' = Some [?raw]"
    unfolding s
    by (simp add: id_env_def parse_ts_def extract_row.simps dict_get_def fromtimestamp_millis_2023 py_or_def json_if_dict_def)
  have h': "map_of ?d' ''id_str'' = None \<and> map_of ?d' ''id'' = None"
    by simp
  from null_identifier [where d = ?d and raw = ?raw and E = id_env and t = ?t and c = ?c
      and p = "''raw2.json''" and d' = ?d' and w = "connect []"] h h'
  show ?thesis
    by simp
qed

end
